theory Spec2Isabelle
  imports Complex_Main "HOL-Library.Multiset"
begin

section \<open>Data model\<close>

text \<open>
  \<open>DailyData\<close> is \<open>Omit<DailyEntry, 'date'>\<close>, the shape of the edit form
  (\<open>initialState\<close>, \<open>dailyData\<close>); \<open>DailyEntry\<close> adds the \<open>date\<close> key. Counters are
  the integers \<open>parseInt\<close> delivers. The source reads \<open>repiqueLeads\<close> and
  \<open>discardReason\<close> through \<open>|| 0\<close>, \<open>?? 0\<close> and \<open>|| ''\<close>, so a record may lack
  them: they are options, \<open>None\<close> being the absent property.
\<close>

record DailyData =
  newLeads :: int
  discardedLeads :: int
  repiqueLeads :: "int option"
  localVisits :: int
  contactingLeads :: int
  inProgressLeads :: int
  scheduledLeads :: int
  negotiationLeads :: int
  creditAnalysisLeads :: int
  approvedLeads :: int
  signedLeads :: int
  discardReason :: "string option"

record DailyEntry = DailyData +
  date :: string

record BrokerProfile =
  brokerName :: string
  initialLeads :: int
  dailyEntries :: "DailyEntry list"

text \<open>\<open>x || 0\<close> on a counter: an absent value and 0 both give 0.\<close>

definition orZero :: "int option \<Rightarrow> int" where
  "orZero v = (case v of None \<Rightarrow> 0 | Some n \<Rightarrow> (if n = 0 then 0 else n))"

text \<open>\<open>s || ''\<close> on an optional string: an absent value and the empty string both give \<open>''\<close>.\<close>

definition orEmpty :: "string option \<Rightarrow> string" where
  "orEmpty v = (case v of None \<Rightarrow> [] | Some s \<Rightarrow> (if s = [] then [] else s))"

section \<open>Strings and dates of the JavaScript runtime\<close>

text \<open>
  The relational operators on strings compare code units from the left; the strings
  here are ASCII, one code unit per character.
\<close>

fun str_lt :: "string \<Rightarrow> string \<Rightarrow> bool" where
  "str_lt [] [] = False"
| "str_lt [] (y # ys) = True"
| "str_lt (x # xs) [] = False"
| "str_lt (x # xs) (y # ys) =
     (if x = y then str_lt xs ys else (of_char x :: int) < of_char y)"

definition str_gt :: "string \<Rightarrow> string \<Rightarrow> bool" where
  "str_gt a b = str_lt b a"

definition startsWith :: "string \<Rightarrow> string \<Rightarrow> bool" where
  "startsWith s p = (take (length p) s = p)"

definition is_digit :: "char \<Rightarrow> bool" where
  "is_digit c = (48 \<le> (of_char c :: int) \<and> (of_char c :: int) \<le> 57)"

definition digit_val :: "char \<Rightarrow> int" where
  "digit_val c = of_char c - 48"

definition num2 :: "char \<Rightarrow> char \<Rightarrow> int" where
  "num2 a b = 10 * digit_val a + digit_val b"

definition num4 :: "char \<Rightarrow> char \<Rightarrow> char \<Rightarrow> char \<Rightarrow> int" where
  "num4 a b c d = 100 * num2 a b + num2 c d"

definition leap :: "int \<Rightarrow> bool" where
  "leap y = (y mod 4 = 0 \<and> (y mod 100 \<noteq> 0 \<or> y mod 400 = 0))"

definition days_in_month :: "int \<Rightarrow> int \<Rightarrow> int" where
  "days_in_month y m =
     (if m = 2 then (if leap y then 29 else 28)
      else if m = 4 \<or> m = 6 \<or> m = 9 \<or> m = 11 then 30 else 31)"

text \<open>
  The date-only form \<open>YYYY-MM-DD\<close> that \<open><input type="date">\<close> and \<open>getTodayString\<close>
  produce. Any other text is \<open>None\<close>: what \<open>new Date\<close> makes of it is left to the
  engine, and nothing is stated about it.
\<close>

fun parseYMD :: "string \<Rightarrow> (int \<times> int \<times> int) option" where
  "parseYMD [a, b, c, d, s1, e, f, s2, g, h] =
     (if list_all is_digit [a, b, c, d, e, f, g, h] \<and> s1 = CHR ''-'' \<and> s2 = CHR ''-''
      then (let y = num4 a b c d; m = num2 e f; dd = num2 g h
            in if 1 \<le> m \<and> m \<le> 12 \<and> 1 \<le> dd \<and> dd \<le> days_in_month y m
               then Some (y, m, dd) else None)
      else None)"
| "parseYMD _ = None"

definition valid_date :: "string \<Rightarrow> bool" where
  "valid_date s = (parseYMD s \<noteq> None)"

text \<open>Days from 0000-01-01 to the first of January of year \<open>y\<close> (proleptic Gregorian).\<close>

definition days_before_year :: "int \<Rightarrow> int" where
  "days_before_year y = 365 * y + (y + 3) div 4 - (y + 99) div 100 + (y + 399) div 400"

text \<open>Days from the first of January to the first of month \<open>m\<close> in year \<open>y\<close>.\<close>

definition days_before_month :: "int \<Rightarrow> int \<Rightarrow> int" where
  "days_before_month y m =
     (if m \<le> 1 then 0 else if m = 2 then 31
      else (if leap y then 1 else 0) +
        (if m = 3 then 59 else if m = 4 then 90 else if m = 5 then 120
         else if m = 6 then 151 else if m = 7 then 181 else if m = 8 then 212
         else if m = 9 then 243 else if m = 10 then 273 else if m = 11 then 304
         else 334))"

text \<open>Day number of a civil date, 1970-01-01 being day 0.\<close>

definition days_from_civil :: "int \<times> int \<times> int \<Rightarrow> int" where
  "days_from_civil t =
     (case t of (y, m, d) \<Rightarrow>
        days_before_year y + days_before_month y m + d - 1 - 719528)"

definition msPerDay :: int where
  "msPerDay = 86400000"

text \<open>
  \<open>new Date(s).getTime()\<close> for a date-only string: midnight UTC of that day;
  \<open>None\<close> stands for \<open>NaN\<close>.
\<close>

definition getTime :: "string \<Rightarrow> int option" where
  "getTime s = map_option (\<lambda>t. days_from_civil t * msPerDay) (parseYMD s)"

text \<open>The civil date of a day number, the inverse of \<open>days_from_civil\<close>.\<close>

definition civil_from_days :: "int \<Rightarrow> int \<times> int \<times> int" where
  "civil_from_days z =
     (let z1 = z + 719468;
          era = z1 div 146097;
          doe = z1 mod 146097;
          yoe = (doe - doe div 1460 + doe div 36524 - doe div 146096) div 365;
          y = yoe + era * 400;
          doy = doe - (365 * yoe + yoe div 4 - yoe div 100);
          mp = (5 * doy + 2) div 153;
          d = doy - (153 * mp + 2) div 5 + 1;
          m = (if mp < 10 then mp + 3 else mp - 9)
      in (if m \<le> 2 then y + 1 else y, m, d))"

definition digit_char :: "int \<Rightarrow> char" where
  "digit_char n = char_of (48 + nat (n mod 10))"

definition pad2 :: "int \<Rightarrow> string" where
  "pad2 n = [digit_char (n div 10), digit_char n]"

definition pad4 :: "int \<Rightarrow> string" where
  "pad4 n = pad2 (n div 100) @ pad2 (n mod 100)"

text \<open>
  \<open>d.toISOString().split('T')[0]\<close>: the UTC calendar date of the instant \<open>t\<close>
  (milliseconds). Years outside 0000..9999 print in the expanded six-digit form.
\<close>

definition toISODate :: "int \<Rightarrow> string" where
  "toISODate t =
     (case civil_from_days (t div msPerDay) of (y, m, d) \<Rightarrow>
        (if 0 \<le> y \<and> y \<le> 9999 then pad4 y
         else (if y < 0 then ''-'' else ''+'') @ pad2 (\<bar>y\<bar> div 10000) @ pad4 (\<bar>y\<bar> mod 10000))
        @ ''-'' @ pad2 m @ ''-'' @ pad2 d)"

section \<open>Array.prototype.sort with a comparator\<close>

text \<open>
  The sort is stable, and a comparator result of \<open>NaN\<close> counts as 0. With a consistent
  comparator every stable sort returns the list that insertion from the right builds.
\<close>

fun insertBy :: "('a \<Rightarrow> 'a \<Rightarrow> int) \<Rightarrow> 'a \<Rightarrow> 'a list \<Rightarrow> 'a list" where
  "insertBy cmp x [] = [x]"
| "insertBy cmp x (y # ys) = (if cmp x y \<le> 0 then x # y # ys else y # insertBy cmp x ys)"

definition sortBy :: "('a \<Rightarrow> 'a \<Rightarrow> int) \<Rightarrow> 'a list \<Rightarrow> 'a list" where
  "sortBy cmp xs = foldr (insertBy cmp) xs []"

text \<open>\<open>(a, b) => new Date(a.date).getTime() - new Date(b.date).getTime()\<close>\<close>

definition byDate :: "DailyEntry \<Rightarrow> DailyEntry \<Rightarrow> int" where
  "byDate a b =
     (case (getTime (date a), getTime (date b)) of
        (Some x, Some y) \<Rightarrow> x - y
      | _ \<Rightarrow> 0)"

definition chronologicalEntries :: "BrokerProfile \<Rightarrow> DailyEntry list" where
  "chronologicalEntries profile = sortBy byDate (dailyEntries profile)"

section \<open>Ledger (entriesWithCalculatedBalances)\<close>

record LedgerEntry = DailyEntry +
  startOfDayBalance :: int
  endOfDayBalance :: int

definition dayEnd :: "int \<Rightarrow> DailyEntry \<Rightarrow> int" where
  "dayEnd currentLeadBase entry =
     currentLeadBase + newLeads entry + orZero (repiqueLeads entry)
       - discardedLeads entry - signedLeads entry"

text \<open>The \<open>map\<close> callback with the captured variable \<open>currentLeadBase\<close> threaded through.\<close>

fun withBalances :: "int \<Rightarrow> DailyEntry list \<Rightarrow> LedgerEntry list" where
  "withBalances currentLeadBase [] = []"
| "withBalances currentLeadBase (entry # rest) =
     DailyEntry.extend entry
       \<lparr>startOfDayBalance = currentLeadBase, endOfDayBalance = dayEnd currentLeadBase entry\<rparr>
     # withBalances (dayEnd currentLeadBase entry) rest"

text \<open>The constant \<open>entriesWithBalance\<close> inside the memo: the ledger in date order.\<close>

definition entriesWithBalance :: "BrokerProfile \<Rightarrow> LedgerEntry list" where
  "entriesWithBalance profile = withBalances (initialLeads profile) (chronologicalEntries profile)"

text \<open>The memo's value: the same list reversed for display, most recent first.\<close>

definition entriesWithCalculatedBalances :: "BrokerProfile \<Rightarrow> LedgerEntry list" where
  "entriesWithCalculatedBalances profile = rev (entriesWithBalance profile)"

section \<open>Monthly summary (monthlySummary)\<close>

text \<open>
  JavaScript numbers are IEEE 754 binary64 values. A finite one is a dyadic rational,
  written here as a fraction (numerator, denominator) with a positive denominator, a
  power of two in every result. The counters are integers, which a double holds exactly
  below \<open>2^53\<close>.
\<close>

type_synonym fraction = "int \<times> int"

text \<open>The number of binary digits of a positive integer.\<close>

function bitLength :: "int \<Rightarrow> nat" where
  "bitLength n = (if n \<le> 0 then 0 else Suc (bitLength (n div 2)))"
  by pat_completeness auto
termination by (relation "measure nat") auto

declare bitLength.simps [simp del]

text \<open>\<open>x * 2^k\<close>, for \<open>k\<close> of either sign.\<close>

definition scaleBy :: "int \<Rightarrow> fraction \<Rightarrow> fraction" where
  "scaleBy k x =
     (case x of (num, den) \<Rightarrow>
        if 0 \<le> k then (num * 2 ^ nat k, den) else (num, den * 2 ^ nat (- k)))"

text \<open>The integer nearest to a fraction, the even one of two that are equally near.\<close>

definition roundHalfEven :: "fraction \<Rightarrow> int" where
  "roundHalfEven x =
     (case x of (num, den) \<Rightarrow>
        let q = num div den; r = num mod den
        in if 2 * r < den then q
           else if den < 2 * r then q + 1
           else if even q then q else q + 1)"

text \<open>
  The exponent \<open>e\<close> of a positive fraction \<open>x\<close>: the one with
  \<open>2^52 \<le> x / 2^e < 2^53\<close>, so that the significand \<open>x / 2^e\<close> has 53 binary digits before
  the point. The bit lengths of numerator and denominator give it up to one.
\<close>

definition exponentOf :: "fraction \<Rightarrow> int" where
  "exponentOf x =
     (case x of (num, den) \<Rightarrow>
        let e = int (bitLength num) - int (bitLength den) - 53
        in case scaleBy (- e) x of (n, d) \<Rightarrow> if 2 ^ 53 * d \<le> n then e + 1 else e)"

text \<open>
  The double nearest to a fraction, ties to the even significand (the rounding of every
  arithmetic operation of the language): the significand is rounded to an integer at the
  exponent of the fraction. The exponent is not bounded here; the quotient of two
  integers below \<open>2^53\<close> and its product by 100 lie far inside the exponent range of
  binary64 (lemma \<open>rate_exponents\<close>), where no overflow and no gradual underflow occurs.
\<close>

definition toDouble :: "fraction \<Rightarrow> fraction" where
  "toDouble x =
     (case x of (num, den) \<Rightarrow>
        if num = 0 then (0, 1)
        else let a = (\<bar>num\<bar>, den);
                 e = exponentOf a;
                 m = roundHalfEven (scaleBy (- e) a)
             in scaleBy e (if num < 0 then - m else m, 1))"

text \<open>\<open>a / b\<close> on two integers, \<open>b\<close> positive, and \<open>x * k\<close> on a double and an integer.\<close>

definition jsDivide :: "int \<Rightarrow> int \<Rightarrow> fraction" where
  "jsDivide a b = toDouble (a, b)"

definition jsTimes :: "fraction \<Rightarrow> int \<Rightarrow> fraction" where
  "jsTimes x k = (case x of (num, den) \<Rightarrow> toDouble (num * k, den))"

text \<open>The decimal digits of a non-negative integer.\<close>

function decimalDigits :: "int \<Rightarrow> string" where
  "decimalDigits n =
     (if n < 10 then [digit_char n] else decimalDigits (n div 10) @ [digit_char (n mod 10)])"
  by pat_completeness auto
termination by (relation "measure nat") auto

declare decimalDigits.simps [simp del]

text \<open>
  \<open>Number.prototype.toFixed(1)\<close> on a double \<open>x\<close> below \<open>10^21\<close> in magnitude (from there
  on the language prints the exponential notation, which takes a counter above \<open>10^19\<close>):
  a minus sign if \<open>x < 0\<close>; then, for \<open>n\<close> the integer with \<open>n / 10 - \<bar>x\<bar>\<close> nearest to zero,
  the larger one of two such, the digits of \<open>n\<close>, padded with zeros on the left to two
  digits, with the point before the last digit.
\<close>

definition toFixed1 :: "fraction \<Rightarrow> string" where
  "toFixed1 x =
     (case x of (num, den) \<Rightarrow>
        let s = (if num < 0 then ''-'' else []);
            n = (20 * \<bar>num\<bar> + den) div (2 * den);
            m = decimalDigits n;
            m = (if length m \<le> 1 then replicate (2 - length m) CHR ''0'' @ m else m);
            k = length m
        in s @ take (k - 1) m @ ''.'' @ drop (k - 1) m)"

text \<open>
  \<open>conversionRate\<close> is a string: the literal \<open>"0.0"\<close>, or
  \<open>((signedLeads / totalLeadsIn) * 100).toFixed(1)\<close>.
\<close>

record MonthlySummary =
  newLeadsSum :: int
  repiqueLeadsSum :: int
  signedLeadsSum :: int
  discardedLeadsSum :: int
  conversionRate :: string
  negotiationLeadsSum :: int
  initialLeadsForMonth :: int
  finalLeadsForMonth :: int

text \<open>
  The \<open>for ... of\<close> loop over the sorted entries: it accumulates while the entry's date
  string is below \<open>`${selectedMonth}-01`\<close> and leaves at the first entry that is not.
\<close>

fun leadBaseBefore :: "string \<Rightarrow> int \<Rightarrow> DailyEntry list \<Rightarrow> int" where
  "leadBaseBefore firstDay currentLeadBaseForMonth [] = currentLeadBaseForMonth"
| "leadBaseBefore firstDay currentLeadBaseForMonth (entry # rest) =
     (if str_lt (date entry) firstDay
      then leadBaseBefore firstDay (dayEnd currentLeadBaseForMonth entry) rest
      else currentLeadBaseForMonth)"

definition monthEntries :: "BrokerProfile \<Rightarrow> string \<Rightarrow> DailyEntry list" where
  "monthEntries profile selectedMonth =
     filter (\<lambda>entry. startsWith (date entry) selectedMonth) (chronologicalEntries profile)"

definition monthlySummary :: "BrokerProfile \<Rightarrow> string \<Rightarrow> MonthlySummary" where
  "monthlySummary profile selectedMonth =
     (let currentLeadBaseForMonth =
            leadBaseBefore (selectedMonth @ ''-01'') (initialLeads profile)
              (chronologicalEntries profile);
          es = monthEntries profile selectedMonth;
          newLeads' = foldl (\<lambda>sum entry. sum + newLeads entry) 0 es;
          repiqueLeads' = foldl (\<lambda>sum entry. sum + orZero (repiqueLeads entry)) 0 es;
          signedLeads' = foldl (\<lambda>sum entry. sum + signedLeads entry) 0 es;
          discardedLeads' = foldl (\<lambda>sum entry. sum + discardedLeads entry) 0 es;
          negotiationLeads' = foldl (\<lambda>sum entry. sum + negotiationLeads entry) 0 es;
          totalLeadsIn = newLeads' + repiqueLeads'
      in \<lparr>newLeadsSum = newLeads',
          repiqueLeadsSum = repiqueLeads',
          signedLeadsSum = signedLeads',
          discardedLeadsSum = discardedLeads',
          conversionRate =
            (if totalLeadsIn > 0
             then toFixed1 (jsTimes (jsDivide signedLeads' totalLeadsIn) 100)
             else ''0.0''),
          negotiationLeadsSum = negotiationLeads',
          initialLeadsForMonth = currentLeadBaseForMonth,
          finalLeadsForMonth =
            currentLeadBaseForMonth + totalLeadsIn - discardedLeads' - signedLeads'\<rparr>)"

section \<open>The component: state, draft cache, handlers\<close>

text \<open>The keys of \<open>fieldOrder\<close>.\<close>

datatype field =
    NewLeads | DiscardedLeads | RepiqueLeads | LocalVisits | ContactingLeads
  | InProgressLeads | ScheduledLeads | NegotiationLeads | CreditAnalysisLeads
  | ApprovedLeads | SignedLeads

definition fieldOrder :: "field list" where
  "fieldOrder =
     [NewLeads, DiscardedLeads, RepiqueLeads, LocalVisits, ContactingLeads, InProgressLeads,
      ScheduledLeads, NegotiationLeads, CreditAnalysisLeads, ApprovedLeads, SignedLeads]"

text \<open>What a number input hands to its \<open>onChange\<close>: \<open>''\<close> or \<open>parseInt(val, 10)\<close>.\<close>

datatype input_value = Blank | Num int

text \<open>
  The texts a localStorage item is taken to hold: the empty string, a text on which
  \<open>JSON.parse\<close> throws, the JSON text \<open>null\<close>, and \<open>JSON.stringify\<close> of a form object.
  \<open>dailyData\<close> holds whatever \<open>JSON.parse\<close> returned, so it may be \<open>null\<close>.
\<close>

datatype draft_text = EmptyText | NotJson | NullJson | FormJson DailyData

datatype form_value = JsNull | Fields DailyData

definition jsonParse :: "draft_text \<Rightarrow> form_value option" where
  "jsonParse t =
     (case t of EmptyText \<Rightarrow> None | NotJson \<Rightarrow> None
      | NullJson \<Rightarrow> Some JsNull | FormJson d \<Rightarrow> Some (Fields d))"

definition truthy :: "draft_text option \<Rightarrow> bool" where
  "truthy item = (case item of None \<Rightarrow> False | Some t \<Rightarrow> t \<noteq> EmptyText)"

datatype alert =
    AlertSelectDate | AlertFutureDate | AlertFixErrors | AlertSaved
  | AlertBulkNoStart | AlertBulkNoEnd | AlertBulkStartFuture | AlertBulkEndFuture
  | AlertBulkStartAfterEnd | AlertBulkSaved

definition is_error :: "alert \<Rightarrow> bool" where
  "is_error a = (a \<noteq> AlertSaved \<and> a \<noteq> AlertBulkSaved)"

text \<open>
  The component's props and state, with the two things its handlers act on:
  \<open>localStorage\<close>, and \<open>saved\<close>, the entries handed to \<open>onSaveEntry\<close> in call order.
\<close>

record world =
  profile :: BrokerProfile
  dailyData :: form_value
  selectedDate :: string
  errors :: "field \<rightharpoonup> bool"
  isDraft :: bool
  showBulkEditModal :: bool
  bulkStartDate :: string
  bulkEndDate :: string
  bulkDailyData :: "field \<rightharpoonup> input_value"
  bulkErrors :: "field \<rightharpoonup> bool"
  localStorage :: "string \<rightharpoonup> draft_text"
  saved :: "DailyEntry list"
  alerts :: "alert list"

definition initialState :: DailyData where
  "initialState =
     \<lparr>newLeads = 0, discardedLeads = 0, repiqueLeads = Some 0, localVisits = 0,
      contactingLeads = 0, inProgressLeads = 0, scheduledLeads = 0, negotiationLeads = 0,
      creditAnalysisLeads = 0, approvedLeads = 0, signedLeads = 0, discardReason = Some []\<rparr>"

definition getDraftKey :: "world \<Rightarrow> string \<Rightarrow> string" where
  "getDraftKey w d = ''draft_entry_'' @ brokerName (profile w) @ ''_'' @ d"

definition findEntry :: "world \<Rightarrow> string \<Rightarrow> DailyEntry option" where
  "findEntry w d = find (\<lambda>e. date e = d) (dailyEntries (profile w))"

text \<open>
  \<open>const { date, ...formData } = existingEntry; { ...initialState, ...formData }\<close>:
  a property the entry lacks keeps the value of \<open>initialState\<close>.
\<close>

definition formOfEntry :: "DailyEntry \<Rightarrow> DailyData" where
  "formOfEntry e =
     (DailyData.truncate e)
       \<lparr>repiqueLeads := Some (case repiqueLeads e of None \<Rightarrow> 0 | Some v \<Rightarrow> v),
        discardReason := Some (case discardReason e of None \<Rightarrow> [] | Some r \<Rightarrow> r)\<rparr>"

definition fromSavedOrDefault :: "world \<Rightarrow> world" where
  "fromSavedOrDefault w =
     (case findEntry w (selectedDate w) of
        Some existingEntry \<Rightarrow> w\<lparr>dailyData := Fields (formOfEntry existingEntry), isDraft := False\<rparr>
      | None \<Rightarrow> w\<lparr>dailyData := Fields initialState, isDraft := False\<rparr>)"

text \<open>The effect "Load data: Check Draft -> Check Saved Entry -> Default".\<close>

definition loadEffect :: "world \<Rightarrow> world" where
  "loadEffect w =
     (let savedDraft = localStorage w (getDraftKey w (selectedDate w));
          w1 = w\<lparr>errors := Map.empty\<rparr>
      in case savedDraft of
           None \<Rightarrow> fromSavedOrDefault w1
         | Some text \<Rightarrow>
             if truthy savedDraft
             then (case jsonParse text of
                     Some parsedDraft \<Rightarrow> w1\<lparr>dailyData := parsedDraft, isDraft := True\<rparr>
                   | None \<Rightarrow> fromSavedOrDefault w1)
             else fromSavedOrDefault w1)"

text \<open>
  The effect "Save Draft on Change", run with the \<open>dailyData\<close> of the render that
  scheduled it.
\<close>

definition saveDraftEffect :: "form_value \<Rightarrow> world \<Rightarrow> world" where
  "saveDraftEffect data w =
     (case data of
        JsNull \<Rightarrow> w
      | Fields d \<Rightarrow>
          w\<lparr>localStorage := (localStorage w)(getDraftKey w (selectedDate w) \<mapsto> FormJson d),
            isDraft := True\<rparr>)"

text \<open>
  Rendering reads \<open>dailyData[key]\<close> and \<open>dailyData.discardedLeads\<close>; on \<open>null\<close> it
  throws, which ends the component.
\<close>

definition renders :: "world \<Rightarrow> bool" where
  "renders w = (dailyData w \<noteq> JsNull)"

text \<open>
  What follows a render \<open>w0\<close> in which a dependency of the load effect has changed
  (mount, another date, another entry list). After that render the effects run in source
  order: the load effect, then, if one of its own dependencies changed too, the save
  effect, which still sees the \<open>dailyData\<close> of \<open>w0\<close>. The load effect has stored a fresh
  object, so a second render follows, after which the save effect runs with the loaded
  data.
\<close>

definition loadRender :: "bool \<Rightarrow> world \<Rightarrow> world" where
  "loadRender saveDepsChanged w0 =
     (let w1 = loadEffect w0;
          w2 = (if saveDepsChanged then saveDraftEffect (dailyData w0) w1 else w1)
      in if renders w2 then saveDraftEffect (dailyData w2) w2 else w2)"

text \<open>\<open>setSelectedDate(d)\<close>: no render when the date is the one already selected.\<close>

definition selectDate :: "string \<Rightarrow> world \<Rightarrow> world" where
  "selectDate d w =
     (if d = selectedDate w \<or> \<not> renders w then w
      else loadRender True (w\<lparr>selectedDate := d\<rparr>))"

definition getField :: "field \<Rightarrow> 'a DailyData_scheme \<Rightarrow> int option" where
  "getField f d =
     (case f of
        NewLeads \<Rightarrow> Some (newLeads d) | DiscardedLeads \<Rightarrow> Some (discardedLeads d)
      | RepiqueLeads \<Rightarrow> repiqueLeads d | LocalVisits \<Rightarrow> Some (localVisits d)
      | ContactingLeads \<Rightarrow> Some (contactingLeads d)
      | InProgressLeads \<Rightarrow> Some (inProgressLeads d)
      | ScheduledLeads \<Rightarrow> Some (scheduledLeads d)
      | NegotiationLeads \<Rightarrow> Some (negotiationLeads d)
      | CreditAnalysisLeads \<Rightarrow> Some (creditAnalysisLeads d)
      | ApprovedLeads \<Rightarrow> Some (approvedLeads d) | SignedLeads \<Rightarrow> Some (signedLeads d))"

definition setField :: "field \<Rightarrow> int \<Rightarrow> DailyData \<Rightarrow> DailyData" where
  "setField f v d =
     (case f of
        NewLeads \<Rightarrow> d\<lparr>newLeads := v\<rparr> | DiscardedLeads \<Rightarrow> d\<lparr>discardedLeads := v\<rparr>
      | RepiqueLeads \<Rightarrow> d\<lparr>repiqueLeads := Some v\<rparr> | LocalVisits \<Rightarrow> d\<lparr>localVisits := v\<rparr>
      | ContactingLeads \<Rightarrow> d\<lparr>contactingLeads := v\<rparr>
      | InProgressLeads \<Rightarrow> d\<lparr>inProgressLeads := v\<rparr>
      | ScheduledLeads \<Rightarrow> d\<lparr>scheduledLeads := v\<rparr>
      | NegotiationLeads \<Rightarrow> d\<lparr>negotiationLeads := v\<rparr>
      | CreditAnalysisLeads \<Rightarrow> d\<lparr>creditAnalysisLeads := v\<rparr>
      | ApprovedLeads \<Rightarrow> d\<lparr>approvedLeads := v\<rparr> | SignedLeads \<Rightarrow> d\<lparr>signedLeads := v\<rparr>)"

text \<open>\<open>value !== '' && value < 0\<close>\<close>

definition negative :: "input_value \<Rightarrow> bool" where
  "negative v = (case v of Blank \<Rightarrow> False | Num n \<Rightarrow> n < 0)"

text \<open>
  The handlers below leave a world with \<open>dailyData = null\<close> as it is: no handler fires
  there, since the render that would attach it has thrown.
\<close>

definition handleNumberChange :: "field \<Rightarrow> input_value \<Rightarrow> world \<Rightarrow> world" where
  "handleNumberChange f v w =
     (case dailyData w of
        JsNull \<Rightarrow> w
      | Fields prev \<Rightarrow>
          w\<lparr>errors := (errors w)(f \<mapsto> negative v),
            dailyData :=
              Fields (setField f (case v of Blank \<Rightarrow> 0 | Num n \<Rightarrow> max 0 n) prev)\<rparr>)"

definition handleBulkNumberChange :: "field \<Rightarrow> input_value \<Rightarrow> world \<Rightarrow> world" where
  "handleBulkNumberChange f v w =
     w\<lparr>bulkErrors := (bulkErrors w)(f \<mapsto> negative v),
       bulkDailyData := (bulkDailyData w)(f \<mapsto> v)\<rparr>"

text \<open>\<open>Object.values(errors).some(isError => isError)\<close>; the keys are fields.\<close>

definition hasActive :: "(field \<rightharpoonup> bool) \<Rightarrow> bool" where
  "hasActive errs = list_ex (\<lambda>f. errs f = Some True) fieldOrder"

definition alert :: "alert \<Rightarrow> world \<Rightarrow> world" where
  "alert a w = w\<lparr>alerts := alerts w @ [a]\<rparr>"

text \<open>\<open>handleSubmit\<close>; \<open>today\<close> is the value of \<open>getTodayString()\<close>.\<close>

definition handleSubmit :: "string \<Rightarrow> world \<Rightarrow> world" where
  "handleSubmit today w =
     (case dailyData w of
        JsNull \<Rightarrow> w
      | Fields data \<Rightarrow>
          if selectedDate w = [] then alert AlertSelectDate w
          else if str_gt (selectedDate w) today then alert AlertFutureDate w
          else if hasActive (errors w) then alert AlertFixErrors w
          else (let finalData =
                      (if discardedLeads data = 0 then data\<lparr>discardReason := Some []\<rparr>
                       else data);
                    entryWithDate = DailyData.extend finalData \<lparr>date = selectedDate w\<rparr>
                in alert AlertSaved
                     (w\<lparr>saved := saved w @ [entryWithDate],
                        localStorage := (localStorage w)(getDraftKey w (selectedDate w) := None),
                        isDraft := False\<rparr>)))"

text \<open>
  \<open>typeof bulkDailyData.f === 'number' ? bulkDailyData.f : (existingEntry?.f ?? 0)\<close>
\<close>

definition bulkValue :: "world \<Rightarrow> DailyEntry option \<Rightarrow> field \<Rightarrow> int" where
  "bulkValue w existingEntry f =
     (case bulkDailyData w f of
        Some (Num n) \<Rightarrow> n
      | _ \<Rightarrow> (case existingEntry of
                None \<Rightarrow> 0
              | Some e \<Rightarrow> (case getField f e of None \<Rightarrow> 0 | Some n \<Rightarrow> n)))"

definition updatedEntry :: "world \<Rightarrow> string \<Rightarrow> DailyEntry" where
  "updatedEntry w dateString =
     (let existingEntry = findEntry w dateString
      in \<lparr>newLeads = bulkValue w existingEntry NewLeads,
          discardedLeads = bulkValue w existingEntry DiscardedLeads,
          repiqueLeads = Some (bulkValue w existingEntry RepiqueLeads),
          localVisits = bulkValue w existingEntry LocalVisits,
          contactingLeads = bulkValue w existingEntry ContactingLeads,
          inProgressLeads = bulkValue w existingEntry InProgressLeads,
          scheduledLeads = bulkValue w existingEntry ScheduledLeads,
          negotiationLeads = bulkValue w existingEntry NegotiationLeads,
          creditAnalysisLeads = bulkValue w existingEntry CreditAnalysisLeads,
          approvedLeads = bulkValue w existingEntry ApprovedLeads,
          signedLeads = bulkValue w existingEntry SignedLeads,
          discardReason =
            Some (case existingEntry of None \<Rightarrow> [] | Some e \<Rightarrow> orEmpty (discardReason e)),
          date = dateString\<rparr>)"

text \<open>The body of the \<open>while\<close> loop up to the increment.\<close>

definition bulkStep :: "string \<Rightarrow> world \<Rightarrow> world" where
  "bulkStep dateString w =
     w\<lparr>saved := saved w @ [updatedEntry w dateString],
       localStorage := (localStorage w)(getDraftKey w dateString := None)\<rparr>"

text \<open>
  \<open>new Date(s + 'T00:00:00')\<close>: midnight local time, as milliseconds UTC. The zone
  keeps one \<open>getTimezoneOffset()\<close> of \<open>tz\<close> minutes (UTC minus local time) over the
  range of the bulk edit; a range across a change of the offset (daylight saving) is not
  covered.
\<close>

definition localMidnight :: "int \<Rightarrow> string \<Rightarrow> int option" where
  "localMidnight tz s =
     map_option (\<lambda>t. days_from_civil t * msPerDay + tz * 60000) (parseYMD s)"

text \<open>
  \<open>currentDate.setDate(currentDate.getDate() + 1)\<close>: the same local time of day on the
  next local calendar day, the local fields being those of the instant \<open>tz\<close> minutes
  earlier.
\<close>

definition nextLocalDay :: "int \<Rightarrow> int \<Rightarrow> int" where
  "nextLocalDay tz t =
     (let localTime = t - tz * 60000;
          day = localTime div msPerDay;
          timeWithinDay = localTime mod msPerDay
      in (day + 1) * msPerDay + timeWithinDay + tz * 60000)"

text \<open>The \<open>while\<close> loop.\<close>

function bulkLoop :: "int \<Rightarrow> int \<Rightarrow> int \<Rightarrow> world \<Rightarrow> world" where
  "bulkLoop tz currentDate endDate w =
     (if currentDate \<le> endDate
      then bulkLoop tz (nextLocalDay tz currentDate) endDate (bulkStep (toISODate currentDate) w)
      else w)"
  by pat_completeness auto
termination
proof (relation "measure (\<lambda>(tz, c, e, w). nat (e - c + 1))")
  show "wf (measure (\<lambda>(tz, c, e, w). nat (e - c + 1)))" by simp
next
  fix tz currentDate endDate :: int and w :: world
  assume "currentDate \<le> endDate"
  moreover have "nextLocalDay tz currentDate = currentDate + msPerDay"
    by (simp add: nextLocalDay_def Let_def algebra_simps)
  ultimately show "((tz, nextLocalDay tz currentDate, endDate, bulkStep (toISODate currentDate) w),
      (tz, currentDate, endDate, w)) \<in> measure (\<lambda>(tz, c, e, w). nat (e - c + 1))"
    by (simp add: msPerDay_def)
qed

text \<open>
  \<open>handleBulkSave\<close>. A boundary that is not a date gives an invalid \<open>Date\<close>, the loop
  condition is false and the body never runs.
\<close>

definition handleBulkSave :: "string \<Rightarrow> int \<Rightarrow> world \<Rightarrow> world" where
  "handleBulkSave today tz w =
     (if bulkStartDate w = [] then alert AlertBulkNoStart w
      else if bulkEndDate w = [] then alert AlertBulkNoEnd w
      else if str_gt (bulkStartDate w) today then alert AlertBulkStartFuture w
      else if str_gt (bulkEndDate w) today then alert AlertBulkEndFuture w
      else if str_gt (bulkStartDate w) (bulkEndDate w) then alert AlertBulkStartAfterEnd w
      else if hasActive (bulkErrors w) then alert AlertFixErrors w
      else (let w1 =
                  (case (localMidnight tz (bulkStartDate w), localMidnight tz (bulkEndDate w)) of
                     (Some currentDate, Some endDate) \<Rightarrow> bulkLoop tz currentDate endDate w
                   | _ \<Rightarrow> w)
            in (alert AlertBulkSaved w1)
                 \<lparr>showBulkEditModal := False, bulkDailyData := Map.empty,
                  bulkErrors := Map.empty\<rparr>))"

section \<open>Vocabulary of the properties\<close>

text \<open>Calendar order on date strings; false when either is not a date.\<close>

definition date_le :: "string \<Rightarrow> string \<Rightarrow> bool" where
  "date_le a b = (case (getTime a, getTime b) of (Some x, Some y) \<Rightarrow> x \<le> y | _ \<Rightarrow> False)"

definition date_less :: "string \<Rightarrow> string \<Rightarrow> bool" where
  "date_less a b = (case (getTime a, getTime b) of (Some x, Some y) \<Rightarrow> x < y | _ \<Rightarrow> False)"

definition all_dated :: "BrokerProfile \<Rightarrow> bool" where
  "all_dated p = list_all (\<lambda>e. valid_date (date e)) (dailyEntries p)"

text \<open>A profile with two days of activity, stored out of order.\<close>

definition scenarioDay1 :: DailyEntry where
  "scenarioDay1 =
     \<lparr>newLeads = 5, discardedLeads = 1, repiqueLeads = None, localVisits = 0,
      contactingLeads = 0, inProgressLeads = 0, scheduledLeads = 0, negotiationLeads = 0,
      creditAnalysisLeads = 0, approvedLeads = 0, signedLeads = 2,
      discardReason = Some ''spam'', date = ''2024-05-01''\<rparr>"

definition scenarioDay2 :: DailyEntry where
  "scenarioDay2 =
     \<lparr>newLeads = 0, discardedLeads = 0, repiqueLeads = Some 0, localVisits = 0,
      contactingLeads = 0, inProgressLeads = 0, scheduledLeads = 0, negotiationLeads = 0,
      creditAnalysisLeads = 0, approvedLeads = 0, signedLeads = 1,
      discardReason = None, date = ''2024-05-02''\<rparr>"

definition scenarioProfile :: BrokerProfile where
  "scenarioProfile =
     \<lparr>brokerName = ''Ana'', initialLeads = 10, dailyEntries = [scenarioDay2, scenarioDay1]\<rparr>"

text \<open>
  The same two days with a day of the month before and a third day of May, both with
  repique leads, again stored out of order.
\<close>

definition aprilDay :: DailyEntry where
  "aprilDay =
     \<lparr>newLeads = 2, discardedLeads = 1, repiqueLeads = Some 3, localVisits = 0,
      contactingLeads = 0, inProgressLeads = 0, scheduledLeads = 0, negotiationLeads = 0,
      creditAnalysisLeads = 0, approvedLeads = 0, signedLeads = 0,
      discardReason = Some ''dup'', date = ''2024-04-30''\<rparr>"

definition mayDay3 :: DailyEntry where
  "mayDay3 =
     \<lparr>newLeads = 1, discardedLeads = 0, repiqueLeads = Some 2, localVisits = 0,
      contactingLeads = 0, inProgressLeads = 0, scheduledLeads = 0, negotiationLeads = 4,
      creditAnalysisLeads = 0, approvedLeads = 0, signedLeads = 1,
      discardReason = None, date = ''2024-05-03''\<rparr>"

definition springProfile :: BrokerProfile where
  "springProfile =
     \<lparr>brokerName = ''Ana'', initialLeads = 10,
      dailyEntries = [mayDay3, scenarioDay2, aprilDay, scenarioDay1]\<rparr>"

text \<open>
  The stored entries with \<open>repiqueLeads: 0\<close> written into those selected entries
  that lack the property.
\<close>

definition explicitZero :: "(DailyEntry \<Rightarrow> bool) \<Rightarrow> DailyEntry \<Rightarrow> DailyEntry" where
  "explicitZero sel e = (if sel e \<and> repiqueLeads e = None then e\<lparr>repiqueLeads := Some 0\<rparr> else e)"

definition withExplicitZeros :: "(DailyEntry \<Rightarrow> bool) \<Rightarrow> BrokerProfile \<Rightarrow> BrokerProfile" where
  "withExplicitZeros sel p = p\<lparr>dailyEntries := map (explicitZero sel) (dailyEntries p)\<rparr>"

definition balances :: "LedgerEntry \<Rightarrow> string \<times> int \<times> int" where
  "balances e = (date e, startOfDayBalance e, endOfDayBalance e)"

text \<open>
  The calendar reading of the two string tests of \<open>monthlySummary\<close>: the entry lies
  before the first day of the month \<open>sel\<close> (\<open>YYYY-MM\<close>), or in that month.
\<close>

definition before_month :: "string \<Rightarrow> DailyEntry \<Rightarrow> bool" where
  "before_month sel e = date_less (date e) (sel @ ''-01'')"

definition in_month :: "string \<Rightarrow> DailyEntry \<Rightarrow> bool" where
  "in_month sel e =
     (case (parseYMD (date e), parseYMD (sel @ ''-01'')) of
        (Some (y, m, d), Some (y', m', d')) \<Rightarrow> y = y' \<and> m = m'
      | _ \<Rightarrow> False)"

definition valid_month :: "string \<Rightarrow> bool" where
  "valid_month sel = valid_date (sel @ ''-01'')"

text \<open>
  What one day adds to the balance by the ledger formula, an absent \<open>repiqueLeads\<close>
  counting as 0.
\<close>

definition dayDelta :: "DailyEntry \<Rightarrow> int" where
  "dayDelta e =
     newLeads e + (case repiqueLeads e of None \<Rightarrow> 0 | Some n \<Rightarrow> n)
       - discardedLeads e - signedLeads e"

text \<open>
  A handler call rejected: nothing changed but an error message shown, so no entry was
  handed to \<open>onSaveEntry\<close> and localStorage is as before.
\<close>

definition allAlerts :: "alert list" where
  "allAlerts =
     [AlertSelectDate, AlertFutureDate, AlertFixErrors, AlertSaved, AlertBulkNoStart,
      AlertBulkNoEnd, AlertBulkStartFuture, AlertBulkEndFuture, AlertBulkStartAfterEnd,
      AlertBulkSaved]"

definition rejected :: "world \<Rightarrow> world \<Rightarrow> bool" where
  "rejected w w' = list_ex (\<lambda>a. is_error a \<and> w' = alert a w) allAlerts"

text \<open>What the read path falls back to without a usable draft.\<close>

definition savedOrDefault :: "world \<Rightarrow> string \<Rightarrow> DailyData" where
  "savedOrDefault w d = (case findEntry w d of Some e \<Rightarrow> formOfEntry e | None \<Rightarrow> initialState)"

text \<open>
  The component showing the scenario profile with an untouched form for 2024-05-03, and
  the bulk dialog set to the single day 2024-05-01.
\<close>

definition idleWorld :: world where
  "idleWorld =
     \<lparr>profile = scenarioProfile, dailyData = Fields initialState, selectedDate = ''2024-05-03'',
      errors = Map.empty, isDraft = False, showBulkEditModal = True,
      bulkStartDate = ''2024-05-01'', bulkEndDate = ''2024-05-01'',
      bulkDailyData = Map.empty, bulkErrors = Map.empty, localStorage = Map.empty,
      saved = [], alerts = []\<rparr>"

text \<open>The date strings the bulk loop visits, in order.\<close>

function bulkDates :: "int \<Rightarrow> int \<Rightarrow> string list" where
  "bulkDates currentDate endDate =
     (if currentDate \<le> endDate
      then toISODate currentDate # bulkDates (currentDate + msPerDay) endDate
      else [])"
  by pat_completeness auto
termination
  by (relation "measure (\<lambda>(c, e). nat (e - c + 1))") (auto simp: msPerDay_def)

text \<open>
  The form holding a reason left over from an earlier edit, and the bulk dialog asking
  for \<open>discardedLeads = 0\<close> on 2024-05-01, a day stored with one discard and a reason.
\<close>

definition staleReasonWorld :: world where
  "staleReasonWorld = idleWorld\<lparr>dailyData := Fields (initialState\<lparr>discardReason := Some ''stale''\<rparr>)\<rparr>"

definition bulkZeroDiscardWorld :: world where
  "bulkZeroDiscardWorld = idleWorld\<lparr>bulkDailyData := [DiscardedLeads \<mapsto> Num 0]\<rparr>"

text \<open>The form set to a day after today, and the bulk dialog with its range reversed.\<close>

definition futureDateWorld :: world where
  "futureDateWorld = idleWorld\<lparr>selectedDate := ''2024-05-20''\<rparr>"

definition reversedRangeWorld :: world where
  "reversedRangeWorld = idleWorld\<lparr>bulkStartDate := ''2024-05-02''\<rparr>"

text \<open>
  The form about to show 2024-05-01, a stored day, with a draft in the cache for it:
  a form text, the JSON text \<open>null\<close>, or a text that is not JSON.
\<close>

definition draftWorld :: "draft_text \<Rightarrow> world" where
  "draftWorld t =
     idleWorld\<lparr>selectedDate := ''2024-05-01'',
       localStorage := [''draft_entry_Ana_2024-05-01'' \<mapsto> t]\<rparr>"

definition draftedForm :: DailyData where
  "draftedForm = initialState\<lparr>newLeads := 7\<rparr>"

text \<open>The idle form (showing 2024-05-03) with a text cached for 2024-05-01.\<close>

definition cachedWorld :: "draft_text \<Rightarrow> world" where
  "cachedWorld t = idleWorld\<lparr>localStorage := [''draft_entry_Ana_2024-05-01'' \<mapsto> t]\<rparr>"

text \<open>The value of a fraction.\<close>

definition val :: "fraction \<Rightarrow> real" where
  "val x = real_of_int (fst x) / real_of_int (snd x)"






section \<open>Properties of the sort\<close>

lemma mset_insertBy: "mset (insertBy cmp x ys) = add_mset x (mset ys)"
  by (induction ys) auto

lemma mset_sortBy: "mset (sortBy cmp xs) = mset xs"
  unfolding sortBy_def by (induction xs) (auto simp: mset_insertBy)

lemma set_insertBy: "set (insertBy cmp x ys) = insert x (set ys)"
  by (induction ys) auto

lemma set_sortBy: "set (sortBy cmp xs) = set xs"
  unfolding sortBy_def by (induction xs) (auto simp: set_insertBy)

lemma getTime_valid: "valid_date s \<Longrightarrow> \<exists>t. getTime s = Some t"
  by (auto simp: valid_date_def getTime_def)

lemma byDate_le:
  "valid_date (date a) \<Longrightarrow> valid_date (date b) \<Longrightarrow> (byDate a b \<le> 0) = date_le (date a) (date b)"
  by (auto simp: byDate_def date_le_def dest!: getTime_valid)

lemma date_le_total: "valid_date a \<Longrightarrow> valid_date b \<Longrightarrow> \<not> date_le a b \<Longrightarrow> date_le b a"
  by (auto simp: date_le_def dest!: getTime_valid)

lemma date_le_trans: "date_le a b \<Longrightarrow> date_le b c \<Longrightarrow> date_le a c"
  by (auto simp: date_le_def split: option.splits)

lemma sorted_insertBy:
  assumes "valid_date (date x)" and "\<forall>y\<in>set ys. valid_date (date y)"
    and "sorted_wrt (\<lambda>a b. date_le (date a) (date b)) ys"
  shows "sorted_wrt (\<lambda>a b. date_le (date a) (date b)) (insertBy byDate x ys)"
  using assms
proof (induction ys)
  case Nil
  then show ?case by simp
next
  case (Cons y ys)
  show ?case
  proof (cases "byDate x y \<le> 0")
    case True
    with Cons.prems have "date_le (date x) (date y)" by (simp add: byDate_le)
    with Cons.prems True show ?thesis by (auto intro: date_le_trans)
  next
    case False
    with Cons.prems have "date_le (date y) (date x)"
      by (simp add: byDate_le date_le_total)
    with Cons False show ?thesis by (auto simp: set_insertBy)
  qed
qed

lemma sorted_sortBy:
  assumes "\<forall>y\<in>set xs. valid_date (date y)"
  shows "sorted_wrt (\<lambda>a b. date_le (date a) (date b)) (sortBy byDate xs)"
  using assms
proof (induction xs)
  case Nil
  then show ?case by (simp add: sortBy_def)
next
  case (Cons x xs)
  then have "sorted_wrt (\<lambda>a b. date_le (date a) (date b)) (sortBy byDate xs)" by simp
  moreover have "\<forall>y\<in>set (sortBy byDate xs). valid_date (date y)"
    using Cons.prems by (simp add: set_sortBy)
  ultimately have
    "sorted_wrt (\<lambda>a b. date_le (date a) (date b)) (insertBy byDate x (sortBy byDate xs))"
    using Cons.prems by (intro sorted_insertBy) auto
  then show ?case by (simp add: sortBy_def)
qed

section \<open>Properties of the ledger\<close>

lemma truncate_withBalances:
  "map DailyEntry.truncate (withBalances b es) = es"
  by (induction es arbitrary: b) (auto simp: DailyEntry.defs)

lemma date_withBalances: "map date (withBalances b es) = map date es"
  by (induction es arbitrary: b) (auto simp: DailyEntry.defs)

lemma length_withBalances: "length (withBalances b es) = length es"
  by (induction es arbitrary: b) auto

lemma hd_withBalances: "es \<noteq> [] \<Longrightarrow> startOfDayBalance (hd (withBalances b es)) = b"
  by (cases es) (auto simp: DailyEntry.defs)

lemma end_withBalances:
  "e \<in> set (withBalances b es) \<Longrightarrow>
   endOfDayBalance e =
     startOfDayBalance e + newLeads e + (case repiqueLeads e of None \<Rightarrow> 0 | Some n \<Rightarrow> n)
       - discardedLeads e - signedLeads e"
  by (induction es arbitrary: b)
    (auto simp: DailyEntry.defs dayEnd_def orZero_def split: option.splits)

lemma adjacent_withBalances:
  "Suc i < length (withBalances b es) \<Longrightarrow>
   startOfDayBalance (withBalances b es ! Suc i) = endOfDayBalance (withBalances b es ! i)"
proof (induction es arbitrary: b i)
  case Nil
  then show ?case by simp
next
  case (Cons e es)
  show ?case
  proof (cases i)
    case 0
    with Cons.prems show ?thesis by (cases es) (auto simp: DailyEntry.defs)
  next
    case (Suc j)
    with Cons show ?thesis by simp
  qed
qed

lemma sorted_wrt_map_date:
  "sorted_wrt (\<lambda>a b. date_le (date a) (date b)) es = sorted_wrt date_le (map date es)"
  by (simp add: sorted_wrt_map)

text \<open>
  C1. The memo's value is the ledger \<open>entriesWithBalance\<close> reversed for display. The
  ledger itself holds the profile's entries, each once; when every entry carries a date it
  is sorted ascending by date; its first entry starts at \<open>initialLeads\<close>; every entry
  starts where its predecessor ended; and every entry ends at
  start + newLeads + repiqueLeads - discardedLeads - signedLeads, an absent
  \<open>repiqueLeads\<close> counting as 0.
\<close>

theorem ledger_invariants:
  fixes p :: BrokerProfile
  defines "ledger \<equiv> entriesWithBalance p"
  shows "entriesWithCalculatedBalances p = rev ledger
    \<and> (all_dated p \<longrightarrow> sorted_wrt date_le (map date ledger))
    \<and> mset (map DailyEntry.truncate ledger) = mset (dailyEntries p)
    \<and> (ledger \<noteq> [] \<longrightarrow> startOfDayBalance (hd ledger) = initialLeads p)
    \<and> (\<forall>i. Suc i < length ledger \<longrightarrow>
          startOfDayBalance (ledger ! Suc i) = endOfDayBalance (ledger ! i))
    \<and> (\<forall>e \<in> set ledger.
          endOfDayBalance e =
            startOfDayBalance e + newLeads e
              + (case repiqueLeads e of None \<Rightarrow> 0 | Some n \<Rightarrow> n)
              - discardedLeads e - signedLeads e)"
proof -
  have "sorted_wrt date_le (map date ledger)" if "all_dated p"
  proof -
    from that have "\<forall>y\<in>set (dailyEntries p). valid_date (date y)"
      by (simp add: all_dated_def list_all_iff)
    then show ?thesis
      unfolding ledger_def entriesWithBalance_def chronologicalEntries_def date_withBalances
      by (simp add: sorted_sortBy flip: sorted_wrt_map_date)
  qed
  moreover have "mset (map DailyEntry.truncate ledger) = mset (dailyEntries p)"
    by (simp add: ledger_def entriesWithBalance_def chronologicalEntries_def
        truncate_withBalances mset_sortBy)
  moreover have "ledger \<noteq> [] \<longrightarrow> startOfDayBalance (hd ledger) = initialLeads p"
    unfolding ledger_def entriesWithBalance_def
    by (metis hd_withBalances withBalances.simps(1))
  moreover have "\<forall>i. Suc i < length ledger \<longrightarrow>
      startOfDayBalance (ledger ! Suc i) = endOfDayBalance (ledger ! i)"
    unfolding ledger_def entriesWithBalance_def by (simp add: adjacent_withBalances)
  moreover have "\<forall>e \<in> set ledger. endOfDayBalance e =
      startOfDayBalance e + newLeads e + (case repiqueLeads e of None \<Rightarrow> 0 | Some n \<Rightarrow> n)
        - discardedLeads e - signedLeads e"
    unfolding ledger_def entriesWithBalance_def by (simp add: end_withBalances)
  moreover have "entriesWithCalculatedBalances p = rev ledger"
    by (simp add: entriesWithCalculatedBalances_def ledger_def)
  ultimately show ?thesis by blast
qed

lemma scenario_times:
  "getTime ''2024-05-01'' = Some 1714521600000" "getTime ''2024-05-02'' = Some 1714608000000"
  by code_simp+

lemma scenario_chronological: "chronologicalEntries scenarioProfile = [scenarioDay1, scenarioDay2]"
  by (simp add: chronologicalEntries_def scenarioProfile_def sortBy_def byDate_def
      scenarioDay1_def scenarioDay2_def scenario_times)

lemma scenario_ledger:
  "map (\<lambda>e. (date e, startOfDayBalance e, endOfDayBalance e)) (entriesWithBalance scenarioProfile)
     = [(''2024-05-01'', 10, 12), (''2024-05-02'', 12, 11)]"
  unfolding entriesWithBalance_def scenario_chronological
  by (simp add: scenarioProfile_def scenarioDay1_def scenarioDay2_def dayEnd_def orZero_def
      DailyEntry.defs)

lemma scenario_dated: "all_dated scenarioProfile"
  by (simp add: all_dated_def scenarioProfile_def scenarioDay1_def scenarioDay2_def valid_date_def
      is_digit_def num4_def num2_def digit_val_def days_in_month_def leap_def)

lemma spring_times:
  "getTime ''2024-04-30'' = Some 1714435200000" "getTime ''2024-05-03'' = Some 1714694400000"
  by code_simp+

lemma spring_chronological:
  "chronologicalEntries springProfile = [aprilDay, scenarioDay1, scenarioDay2, mayDay3]"
  by (simp add: chronologicalEntries_def springProfile_def sortBy_def byDate_def
      scenarioDay1_def scenarioDay2_def aprilDay_def mayDay3_def scenario_times spring_times)

lemma spring_dated: "all_dated springProfile"
  by (simp add: all_dated_def springProfile_def scenarioDay1_def scenarioDay2_def aprilDay_def
      mayDay3_def valid_date_def is_digit_def num4_def num2_def digit_val_def days_in_month_def
      leap_def)

lemma spring_ledger_entries:
  "map DailyEntry.truncate (entriesWithBalance springProfile)
     = [aprilDay, scenarioDay1, scenarioDay2, mayDay3]"
  by (simp only: entriesWithBalance_def truncate_withBalances spring_chronological)

theorem ledger_invariants_witness:
  "all_dated springProfile
   \<and> repiqueLeads aprilDay = Some 3 \<and> repiqueLeads mayDay3 = Some 2
   \<and> map DailyEntry.truncate (entriesWithBalance springProfile)
       = [aprilDay, scenarioDay1, scenarioDay2, mayDay3]
   \<and> map (\<lambda>e. (date e, startOfDayBalance e, endOfDayBalance e)) (entriesWithBalance springProfile)
       = [(''2024-04-30'', 10, 14), (''2024-05-01'', 14, 16), (''2024-05-02'', 16, 15),
          (''2024-05-03'', 15, 17)]
   \<and> sorted_wrt date_le (map date (entriesWithBalance springProfile))"
proof -
  let ?L = "entriesWithBalance springProfile"
  note inv = ledger_invariants [of springProfile]
  have tr: "map DailyEntry.truncate ?L = [aprilDay, scenarioDay1, scenarioDay2, mayDay3]"
    by (rule spring_ledger_entries)
  then obtain a b c d where L: "?L = [a, b, c, d]"
    by (auto simp: map_eq_Cons_conv)
  from tr have fields:
    "DailyEntry.truncate a = aprilDay" "DailyEntry.truncate b = scenarioDay1"
    "DailyEntry.truncate c = scenarioDay2" "DailyEntry.truncate d = mayDay3"
    by (simp_all add: L)
  have cnt: "newLeads x = newLeads (DailyEntry.truncate x)"
    "repiqueLeads x = repiqueLeads (DailyEntry.truncate x)"
    "discardedLeads x = discardedLeads (DailyEntry.truncate x)"
    "signedLeads x = signedLeads (DailyEntry.truncate x)"
    "date x = date (DailyEntry.truncate x)" for x :: LedgerEntry
    by (simp_all add: DailyEntry.defs)
  have il: "initialLeads springProfile = 10" by (simp add: springProfile_def)
  from inv have "?L \<noteq> [] \<longrightarrow> startOfDayBalance (hd ?L) = initialLeads springProfile"
    by blast
  then have start: "startOfDayBalance a = 10" by (simp add: L il)
  from inv have step: "Suc i < length ?L \<Longrightarrow>
      startOfDayBalance (?L ! Suc i) = endOfDayBalance (?L ! i)" for i
    by blast
  have adj: "startOfDayBalance b = endOfDayBalance a"
    "startOfDayBalance c = endOfDayBalance b" "startOfDayBalance d = endOfDayBalance c"
    using step [of 0] step [of "Suc 0"] step [of "Suc (Suc 0)"] by (simp_all add: L)
  from inv have ends: "\<forall>e \<in> set ?L. endOfDayBalance e =
      startOfDayBalance e + newLeads e + (case repiqueLeads e of None \<Rightarrow> 0 | Some n \<Rightarrow> n)
        - discardedLeads e - signedLeads e"
    by blast
  have ea: "endOfDayBalance a = 14"
    using ends start by (simp add: L cnt [of a] fields aprilDay_def)
  have eb: "endOfDayBalance b = 16"
    using ends adj ea by (simp add: L cnt [of b] fields scenarioDay1_def)
  have ec: "endOfDayBalance c = 15"
    using ends adj eb by (simp add: L cnt [of c] fields scenarioDay2_def)
  have ed: "endOfDayBalance d = 17"
    using ends adj ec by (simp add: L cnt [of d] fields mayDay3_def)
  have dates: "map date ?L = [''2024-04-30'', ''2024-05-01'', ''2024-05-02'', ''2024-05-03'']"
    by (simp add: L cnt(5) [of a] cnt(5) [of b] cnt(5) [of c] cnt(5) [of d] fields
        aprilDay_def scenarioDay1_def scenarioDay2_def mayDay3_def)
  have "map (\<lambda>e. (date e, startOfDayBalance e, endOfDayBalance e)) ?L
       = [(''2024-04-30'', 10, 14), (''2024-05-01'', 14, 16), (''2024-05-02'', 16, 15),
          (''2024-05-03'', 15, 17)]"
    using dates start adj ea eb ec ed by (simp add: L)
  moreover from inv spring_dated have "sorted_wrt date_le (map date ?L)" by blast
  ultimately show ?thesis
    using spring_dated tr by (simp add: aprilDay_def mayDay3_def)
qed

section \<open>Absent repiqueLeads\<close>

lemma insertBy_map:
  assumes "\<And>a b. cmp (f a) (f b) = cmp a b"
  shows "insertBy cmp (f x) (map f ys) = map f (insertBy cmp x ys)"
  by (induction ys) (simp_all add: assms)

lemma sortBy_map:
  assumes "\<And>a b. cmp (f a) (f b) = cmp a b"
  shows "sortBy cmp (map f xs) = map f (sortBy cmp xs)"
  unfolding sortBy_def using assms by (induction xs) (simp_all add: insertBy_map)

lemma date_explicitZero: "date (explicitZero sel e) = date e"
  by (simp add: explicitZero_def)

lemma byDate_explicitZero: "byDate (explicitZero sel a) (explicitZero sel b) = byDate a b"
  by (simp add: byDate_def date_explicitZero)

lemma dayEnd_explicitZero: "dayEnd b (explicitZero sel e) = dayEnd b e"
  by (simp add: dayEnd_def explicitZero_def orZero_def)

lemma chronological_explicitZero:
  "chronologicalEntries (withExplicitZeros sel p) = map (explicitZero sel) (chronologicalEntries p)"
  by (simp add: chronologicalEntries_def withExplicitZeros_def sortBy_map byDate_explicitZero)

lemma balances_explicitZero:
  "map balances (withBalances b (map (explicitZero sel) es)) = map balances (withBalances b es)"
  by (induction es arbitrary: b)
    (simp_all add: balances_def dayEnd_explicitZero date_explicitZero DailyEntry.defs)

lemma leadBaseBefore_explicitZero:
  "leadBaseBefore d b (map (explicitZero sel) es) = leadBaseBefore d b es"
  by (induction es arbitrary: b) (simp_all add: dayEnd_explicitZero date_explicitZero)

lemma filter_explicitZero:
  "filter (\<lambda>e. startsWith (date e) m) (map (explicitZero sel) es)
     = map (explicitZero sel) (filter (\<lambda>e. startsWith (date e) m) es)"
  by (simp add: filter_map o_def date_explicitZero)

lemma foldl_counter_explicitZero:
  assumes "\<And>e. g (explicitZero sel e) = g e"
  shows "foldl (\<lambda>sum e. sum + g e) (a::int) (map (explicitZero sel) es) = foldl (\<lambda>sum e. sum + g e) a es"
  by (induction es arbitrary: a) (simp_all add: assms)

lemma counters_explicitZero:
  "newLeads (explicitZero sel e) = newLeads e"
  "orZero (repiqueLeads (explicitZero sel e)) = orZero (repiqueLeads e)"
  "signedLeads (explicitZero sel e) = signedLeads e"
  "discardedLeads (explicitZero sel e) = discardedLeads e"
  "negotiationLeads (explicitZero sel e) = negotiationLeads e"
  by (simp_all add: explicitZero_def orZero_def)

text \<open>
  C2. Writing \<open>repiqueLeads: 0\<close> into any entries that lack the property changes neither
  the ledger's balances nor the monthly summary: the fold and the monthly sums read an
  absent \<open>repiqueLeads\<close> as 0.
\<close>

theorem absent_repique_is_zero:
  "map balances (entriesWithBalance (withExplicitZeros sel p)) = map balances (entriesWithBalance p)
   \<and> monthlySummary (withExplicitZeros sel p) selectedMonth = monthlySummary p selectedMonth"
proof
  have "initialLeads (withExplicitZeros sel p) = initialLeads p"
    by (simp add: withExplicitZeros_def)
  then show "map balances (entriesWithBalance (withExplicitZeros sel p))
      = map balances (entriesWithBalance p)"
    by (simp add: entriesWithBalance_def chronological_explicitZero balances_explicitZero)
next
  have init: "initialLeads (withExplicitZeros sel p) = initialLeads p"
    by (simp add: withExplicitZeros_def)
  have me: "monthEntries (withExplicitZeros sel p) selectedMonth
      = map (explicitZero sel) (monthEntries p selectedMonth)"
    by (simp add: monthEntries_def chronological_explicitZero filter_explicitZero)
  show "monthlySummary (withExplicitZeros sel p) selectedMonth = monthlySummary p selectedMonth"
    by (simp add: monthlySummary_def Let_def me init chronological_explicitZero
        leadBaseBefore_explicitZero foldl_counter_explicitZero counters_explicitZero)
qed

lemma scenario_month_entries: "monthEntries scenarioProfile ''2024-05'' = [scenarioDay1, scenarioDay2]"
  by (simp add: monthEntries_def scenario_chronological startsWith_def scenarioDay1_def scenarioDay2_def)

lemma scenario_base: "leadBaseBefore ''2024-05-01'' 10 [scenarioDay1, scenarioDay2] = 10"
  by (simp add: scenarioDay1_def)

lemma scenario_summary:
  "monthlySummary scenarioProfile ''2024-05'' =
     \<lparr>newLeadsSum = 5, repiqueLeadsSum = 0, signedLeadsSum = 3, discardedLeadsSum = 1,
      conversionRate = ''60.0'', negotiationLeadsSum = 0, initialLeadsForMonth = 10,
      finalLeadsForMonth = 11\<rparr>"
proof -
  have "initialLeads scenarioProfile = 10" by (simp add: scenarioProfile_def)
  moreover have "toFixed1 (jsTimes (jsDivide 3 5) 100) = ''60.0''" by code_simp
  ultimately show ?thesis
    unfolding monthlySummary_def scenario_month_entries scenario_chronological
    by (simp add: scenario_base) (simp add: scenarioDay1_def scenarioDay2_def orZero_def)
qed

theorem absent_repique_is_zero_witness:
  "repiqueLeads scenarioDay1 = None
   \<and> dailyEntries (withExplicitZeros (\<lambda>e. True) scenarioProfile)
       = [scenarioDay2, scenarioDay1\<lparr>repiqueLeads := Some 0\<rparr>]
   \<and> map balances (entriesWithBalance (withExplicitZeros (\<lambda>e. True) scenarioProfile))
       = [(''2024-05-01'', 10, 12), (''2024-05-02'', 12, 11)]
   \<and> finalLeadsForMonth (monthlySummary (withExplicitZeros (\<lambda>e. True) scenarioProfile) ''2024-05'') = 11"
proof -
  have "repiqueLeads scenarioDay1 = None"
    by (simp add: scenarioDay1_def)
  moreover have "dailyEntries (withExplicitZeros (\<lambda>e. True) scenarioProfile)
      = [scenarioDay2, scenarioDay1\<lparr>repiqueLeads := Some 0\<rparr>]"
    by (simp add: withExplicitZeros_def explicitZero_def scenarioProfile_def
        scenarioDay1_def scenarioDay2_def)
  moreover have "map balances (entriesWithBalance scenarioProfile)
      = [(''2024-05-01'', 10, 12), (''2024-05-02'', 12, 11)]"
    using scenario_ledger unfolding balances_def [abs_def] by simp
  moreover have "finalLeadsForMonth (monthlySummary scenarioProfile ''2024-05'') = 11"
    by (simp add: scenario_summary)
  ultimately show ?thesis
    using absent_repique_is_zero [of "\<lambda>e. True" scenarioProfile "''2024-05''"] by simp
qed

section \<open>Date strings order as dates\<close>

lemma parseYMD_SomeD:
  assumes "parseYMD s = Some (y, m, dd)"
  shows "\<exists>a b c d e f g h. s = [a, b, c, d, CHR ''-'', e, f, CHR ''-'', g, h]
     \<and> list_all is_digit [a, b, c, d, e, f, g, h]
     \<and> y = num4 a b c d \<and> m = num2 e f \<and> dd = num2 g h
     \<and> 1 \<le> m \<and> m \<le> 12 \<and> 1 \<le> dd \<and> dd \<le> days_in_month y m"
  using assms by (cases s rule: parseYMD.cases) (auto simp: Let_def split: if_splits)

lemma str_lt_Cons:
  "str_lt (x # xs) (y # ys) = ((of_char x :: int) < of_char y \<or> (of_char x :: int) = of_char y \<and> str_lt xs ys)"
  by auto

lemma lex_base:
  fixes a b a' b' k :: int
  assumes "0 \<le> b" "b < k" "0 \<le> b'" "b' < k"
  shows "(k * a + b < k * a' + b') = (a < a' \<or> a = a' \<and> b < b')"
    and "(k * a + b = k * a' + b') = (a = a' \<and> b = b')"
proof -
  have k: "0 < k" using assms by linarith
  have less: "k * a + b < k * a' + b'" if "a < a'"
  proof -
    from that have "a + 1 \<le> a'" by simp
    then have "k * (a + 1) \<le> k * a'" using k by (simp add: mult_left_mono)
    then show ?thesis using assms by (simp add: distrib_left)
  qed
  have greater: "k * a' + b' < k * a + b" if "a' < a"
  proof -
    from that have "a' + 1 \<le> a" by simp
    then have "k * (a' + 1) \<le> k * a" using k by (simp add: mult_left_mono)
    then show ?thesis using assms by (simp add: distrib_left)
  qed
  show "(k * a + b < k * a' + b') = (a < a' \<or> a = a' \<and> b < b')"
    using less greater by (cases a a' rule: linorder_cases) auto
  show "(k * a + b = k * a' + b') = (a = a' \<and> b = b')"
    using less greater by (cases a a' rule: linorder_cases) auto
qed

lemma digit_val_bounds: "is_digit a \<Longrightarrow> 0 \<le> digit_val a \<and> digit_val a < 10"
  by (simp add: is_digit_def digit_val_def)

lemma digit_val_order:
  "(digit_val a < digit_val b) = ((of_char a :: int) < of_char b)"
  "(digit_val a = digit_val b) = ((of_char a :: int) = of_char b)"
  by (simp_all add: digit_val_def)

lemma num2_less:
  assumes "is_digit a" "is_digit b" "is_digit a'" "is_digit b'"
  shows "(num2 a b < num2 a' b') = ((of_char a :: int) < of_char a' \<or> (of_char a :: int) = of_char a' \<and> (of_char b :: int) < of_char b')"
  using lex_base(1) [of "digit_val b" 10 "digit_val b'" "digit_val a" "digit_val a'"]
    digit_val_bounds assms
  by (simp add: num2_def digit_val_order)

lemma num2_eq:
  assumes "is_digit a" "is_digit b" "is_digit a'" "is_digit b'"
  shows "(num2 a b = num2 a' b') = ((of_char a :: int) = of_char a' \<and> (of_char b :: int) = of_char b')"
  using lex_base(2) [of "digit_val b" 10 "digit_val b'" "digit_val a" "digit_val a'"]
    digit_val_bounds assms
  by (simp add: num2_def digit_val_order)

lemma num2_bounds:
  assumes "is_digit a" "is_digit b"
  shows "0 \<le> num2 a b" "num2 a b < 100"
  using digit_val_bounds [OF assms(1)] digit_val_bounds [OF assms(2)]
  by (simp_all add: num2_def)

lemma num4_less:
  assumes "is_digit a" "is_digit b" "is_digit c" "is_digit d" "is_digit a'" "is_digit b'" "is_digit c'" "is_digit d'"
  shows "(num4 a b c d < num4 a' b' c' d') = (num2 a b < num2 a' b' \<or> num2 a b = num2 a' b' \<and> num2 c d < num2 c' d')"
  unfolding num4_def
  by (rule lex_base(1)) (simp_all add: num2_bounds assms)

lemma num4_eq:
  assumes "is_digit a" "is_digit b" "is_digit c" "is_digit d" "is_digit a'" "is_digit b'" "is_digit c'" "is_digit d'"
  shows "(num4 a b c d = num4 a' b' c' d') = (num2 a b = num2 a' b' \<and> num2 c d = num2 c' d')"
  unfolding num4_def
  by (rule lex_base(2)) (simp_all add: num2_bounds assms)

lemma str_lt_2:
  assumes "is_digit a" "is_digit b" "is_digit a'" "is_digit b'"
  shows "str_lt (a # b # xs) (a' # b' # ys)
    = (num2 a b < num2 a' b' \<or> num2 a b = num2 a' b' \<and> str_lt xs ys)"
  unfolding str_lt_Cons num2_less [OF assms] num2_eq [OF assms] by blast

lemma str_lt_dash: "str_lt (CHR ''-'' # xs) (CHR ''-'' # ys) = str_lt xs ys"
  by simp

lemma str_lt_dates:
  assumes "parseYMD s = Some (y, m, d)" and "parseYMD t = Some (y', m', d')"
  shows "str_lt s t = (y < y' \<or> y = y' \<and> (m < m' \<or> m = m' \<and> d < d'))"
proof -
  from parseYMD_SomeD [OF assms(1)] obtain a b c e f g h i
    where s: "s = [a, b, c, e, CHR ''-'', f, g, CHR ''-'', h, i]"
      and ds: "is_digit a" "is_digit b" "is_digit c" "is_digit e" "is_digit f" "is_digit g"
        "is_digit h" "is_digit i"
      and vs: "y = num4 a b c e" "m = num2 f g" "d = num2 h i"
    by auto
  from parseYMD_SomeD [OF assms(2)] obtain a' b' c' e' f' g' h' i'
    where t: "t = [a', b', c', e', CHR ''-'', f', g', CHR ''-'', h', i']"
      and dt: "is_digit a'" "is_digit b'" "is_digit c'" "is_digit e'" "is_digit f'" "is_digit g'"
        "is_digit h'" "is_digit i'"
      and vt: "y' = num4 a' b' c' e'" "m' = num2 f' g'" "d' = num2 h' i'"
    by auto
  have "str_lt s t =
      (num2 a b < num2 a' b' \<or> num2 a b = num2 a' b' \<and>
        (num2 c e < num2 c' e' \<or> num2 c e = num2 c' e' \<and>
          (m < m' \<or> m = m' \<and> d < d')))"
    unfolding s t vs vt
    by (simp only: str_lt_2 ds dt str_lt_dash str_lt.simps(1) simp_thms)
  also have "\<dots> = (y < y' \<or> y = y' \<and> (m < m' \<or> m = m' \<and> d < d'))"
    unfolding vs vt num4_less [OF ds(1-4) dt(1-4)] num4_eq [OF ds(1-4) dt(1-4)] by blast
  finally show ?thesis .
qed

lemma div_step:
  fixes y k :: int
  assumes "0 < k"
  shows "(y + k) div k = (y + (k - 1)) div k + (if y mod k = 0 then 1 else 0)"
proof -
  define q r where "q = y div k" and "r = y mod k"
  have y: "y = k * q + r" by (simp add: q_def r_def)
  have r: "0 \<le> r" "r < k" using assms by (simp_all add: r_def)
  have up: "(y + k) div k = q + 1"
    by (rule int_div_pos_eq [where r = r]) (simp_all add: y r algebra_simps)
  show ?thesis
  proof (cases "r = 0")
    case True
    have "(y + (k - 1)) div k = q"
      by (rule int_div_pos_eq [where r = "k - 1"]) (use assms in \<open>simp_all add: y True\<close>)
    with up True show ?thesis by (simp add: r_def)
  next
    case False
    have "(y + (k - 1)) div k = q + 1"
      by (rule int_div_pos_eq [where r = "r - 1"]) (use r False in \<open>simp_all add: y algebra_simps\<close>)
    with up False show ?thesis by (simp add: r_def)
  qed
qed

lemma days_before_year_Suc:
  "days_before_year (y + 1) = days_before_year y + 365 + (if leap y then 1 else 0)"
proof -
  define a b c where abc: "a = (y + 3) div 4" "b = (y + 99) div 100" "c = (y + 399) div 400"
  define i j k :: int where ijk: "i = (if y mod 4 = 0 then 1 else 0)"
    "j = (if y mod 100 = 0 then 1 else 0)" "k = (if y mod 400 = 0 then 1 else 0)"
  have d4: "y mod 4 = 0" if "y mod 100 = 0"
    using mod_mod_cancel [of 4 100 y] that by simp
  have d100: "y mod 100 = 0" if "y mod 400 = 0"
    using mod_mod_cancel [of 100 400 y] that by simp
  have e: "y + 1 + 3 = y + 4" "y + 1 + 99 = y + 100" "y + 1 + 399 = y + 400"
    by simp_all
  have s4: "(y + 4) div 4 = a + i"
    using div_step [of 4 y] by (simp add: abc ijk)
  have s100: "(y + 100) div 100 = b + j"
    using div_step [of 100 y] by (simp add: abc ijk)
  have s400: "(y + 400) div 400 = c + k"
    using div_step [of 400 y] by (simp add: abc ijk)
  have old: "days_before_year y = 365 * y + a - b + c"
    by (simp only: days_before_year_def abc)
  have "days_before_year (y + 1) = 365 * (y + 1) + (a + i) - (b + j) + (c + k)"
    by (simp only: days_before_year_def e s4 s100 s400)
  also have "\<dots> = days_before_year y + 365 + (i - j + k)"
    by (simp only: old) simp
  also have "i - j + k = (if leap y then 1 else 0)"
  proof (cases "y mod 400 = 0")
    case True
    with d100 [OF True] d4 [OF d100 [OF True]] show ?thesis
      by (simp only: leap_def ijk) simp
  next
    case n400: False
    show ?thesis
    proof (cases "y mod 100 = 0")
      case True
      with n400 d4 [OF True] show ?thesis
        by (simp only: leap_def ijk) simp
    next
      case False
      with n400 show ?thesis
        by (simp only: leap_def ijk) simp
    qed
  qed
  finally show ?thesis by simp
qed

lemma days_before_year_mono:
  assumes "y \<le> y'"
  shows "days_before_year y \<le> days_before_year y'"
  using assms
proof (induction y' rule: int_ge_induct)
  case base
  then show ?case by simp
next
  case (step i)
  then show ?case by (simp add: days_before_year_Suc)
qed

lemma month_cases:
  fixes m :: int
  assumes "1 \<le> m" "m \<le> 12"
  obtains "m = 1" | "m = 2" | "m = 3" | "m = 4" | "m = 5" | "m = 6"
    | "m = 7" | "m = 8" | "m = 9" | "m = 10" | "m = 11" | "m = 12"
proof -
  have "[1..12] = [1, 2, 3, 4, 5, 6, 7, 8, 9, 10, 11, 12 :: int]"
    by code_simp
  moreover from assms have "m \<in> set [1..12]" by simp
  ultimately have "m \<in> set [1, 2, 3, 4, 5, 6, 7, 8, 9, 10, 11, 12 :: int]" by simp
  then show ?thesis using that by auto
qed

lemma day_of_year_bound:
  assumes "1 \<le> m" "m \<le> 12" "d \<le> days_in_month y m"
  shows "days_before_month y m + d \<le> 365 + (if leap y then 1 else 0)"
proof -
  from assms(1,2) show ?thesis
    using assms(3) by (cases m rule: month_cases) (auto simp: days_before_month_def days_in_month_def split: if_splits)
qed

lemma days_before_month_next:
  assumes "1 \<le> m" "m < m'" "m' \<le> 12" "d \<le> days_in_month y m"
  shows "days_before_month y m + d \<le> days_before_month y m'"
proof -
  have step: "days_before_month y k + days_in_month y k = days_before_month y (k + 1)"
    if "1 \<le> k" "k \<le> 11" for k
  proof -
    from that have "1 \<le> k" "k \<le> 12" by simp_all
    then show ?thesis
      using that by (cases k rule: month_cases) (auto simp: days_before_month_def days_in_month_def split: if_splits)
  qed
  have mono: "days_before_month y k \<le> days_before_month y k'" if "k \<le> k'" "1 \<le> k" "k' \<le> 12" for k k'
    using that
  proof (induction k' rule: int_ge_induct)
    case base
    then show ?case by simp
  next
    case (step i)
    have "0 \<le> days_in_month y i" by (simp add: days_in_month_def)
    with step \<open>1 \<le> k\<close> show ?case
      using \<open>\<And>k. 1 \<le> k \<Longrightarrow> k \<le> 11 \<Longrightarrow> days_before_month y k + days_in_month y k = days_before_month y (k + 1)\<close> [of i]
      by simp
  qed
  have "days_before_month y m + d \<le> days_before_month y (m + 1)"
    using step [of m] assms by simp
  also have "\<dots> \<le> days_before_month y m'"
    using assms by (intro mono) simp_all
  finally show ?thesis .
qed

lemma days_from_civil_mono:
  assumes v: "1 \<le> m" "m \<le> 12" "1 \<le> d" "d \<le> days_in_month y m"
    and v': "1 \<le> m'" "m' \<le> 12" "1 \<le> d'" "d' \<le> days_in_month y' m'"
    and less: "y < y' \<or> y = y' \<and> (m < m' \<or> m = m' \<and> d < d')"
  shows "days_from_civil (y, m, d) < days_from_civil (y', m', d')"
proof -
  consider "y < y'" | "y = y'" "m < m'" | "y = y'" "m = m'" "d < d'"
    using less by blast
  then show ?thesis
  proof cases
    case 1
    have "days_before_year y + days_before_month y m + d \<le> days_before_year (y + 1)"
      using day_of_year_bound [OF v(1,2,4)] by (simp add: days_before_year_Suc)
    also have "\<dots> \<le> days_before_year y'"
      using 1 by (intro days_before_year_mono) simp
    also have "\<dots> < days_before_year y' + days_before_month y' m' + d'"
    proof -
      have "0 \<le> days_before_month y' m'"
        by (simp add: days_before_month_def)
      with v'(3) show ?thesis by simp
    qed
    finally show ?thesis by (simp add: days_from_civil_def)
  next
    case 2
    with days_before_month_next [OF v(1) 2(2) v'(2) v(4)] v'(3)
    show ?thesis by (simp add: days_from_civil_def)
  next
    case 3
    then show ?thesis by (simp add: days_from_civil_def)
  qed
qed

lemma parseYMD_valid:
  assumes "parseYMD s = Some (y, m, d)"
  shows "1 \<le> m" "m \<le> 12" "1 \<le> d" "d \<le> days_in_month y m"
  using parseYMD_SomeD [OF assms] by auto

lemma str_lt_date_less:
  assumes "valid_date a" "valid_date b"
  shows "str_lt a b = date_less a b"
proof -
  from assms obtain y m d y' m' d'
    where a: "parseYMD a = Some (y, m, d)" and b: "parseYMD b = Some (y', m', d')"
    by (auto simp: valid_date_def)
  let ?lt = "\<lambda>(y::int, m::int, d::int) (y', m', d'). y < y' \<or> y = y' \<and> (m < m' \<or> m = m' \<and> d < d')"
  have less: "days_from_civil (y, m, d) < days_from_civil (y', m', d')"
    if "?lt (y, m, d) (y', m', d')"
    using days_from_civil_mono [OF parseYMD_valid [OF a] parseYMD_valid [OF b]] that by simp
  have greater: "days_from_civil (y', m', d') < days_from_civil (y, m, d)"
    if "?lt (y', m', d') (y, m, d)"
    using days_from_civil_mono [OF parseYMD_valid [OF b] parseYMD_valid [OF a]] that by simp
  have "(days_from_civil (y, m, d) < days_from_civil (y', m', d')) = ?lt (y, m, d) (y', m', d')"
  proof (cases "?lt (y, m, d) (y', m', d')")
    case True
    with less show ?thesis by simp
  next
    case False
    then consider "(y, m, d) = (y', m', d')" | "?lt (y', m', d') (y, m, d)"
      by (cases y y' rule: linorder_cases; cases m m' rule: linorder_cases;
          cases d d' rule: linorder_cases) auto
    then show ?thesis
    proof cases
      case 1
      with False show ?thesis by simp
    next
      case 2
      with greater False show ?thesis by simp
    qed
  qed
  then show ?thesis
    by (simp add: str_lt_dates [OF a b] date_less_def getTime_def a b msPerDay_def)
qed

lemma date_le_less_trans: "date_le a b \<Longrightarrow> date_less b c \<Longrightarrow> date_less a c"
  by (auto simp: date_le_def date_less_def split: option.splits)

section \<open>Properties of the monthly summary\<close>

lemma leadBaseBefore_takeWhile:
  "leadBaseBefore d b es = foldl dayEnd b (takeWhile (\<lambda>e. str_lt (date e) d) es)"
  by (induction es arbitrary: b) simp_all

lemma takeWhile_filter_sorted:
  assumes "sorted_wrt R es" and "\<And>a b. R a b \<Longrightarrow> P b \<Longrightarrow> P a"
  shows "takeWhile P es = filter P es"
  using assms(1)
proof (induction es)
  case Nil
  then show ?case by simp
next
  case (Cons x xs)
  show ?case
  proof (cases "P x")
    case True
    with Cons show ?thesis by simp
  next
    case False
    have "\<not> P y" if "y \<in> set xs" for y
      using Cons.prems that assms(2) [of x y] False by auto
    then have "filter P xs = []" by (simp add: filter_empty_conv)
    with False show ?thesis by simp
  qed
qed

lemma foldl_sum: "foldl (\<lambda>sum e. sum + g e) (a::int) es = a + sum_list (map g es)"
  by (induction es arbitrary: a) simp_all

lemma sum_filter_sortBy:
  "sum_list (map g (filter P (sortBy cmp xs))) = (sum_list (map g (filter P xs)) :: int)"
proof -
  have "mset (map g (filter P (sortBy cmp xs))) = mset (map g (filter P xs))"
    by (simp add: mset_sortBy)
  then show ?thesis by (metis sum_mset_sum_list)
qed

lemma startsWith_in_month:
  assumes "valid_date d" "valid_month sel"
  shows "startsWith d sel = (case (parseYMD d, parseYMD (sel @ ''-01'')) of
        (Some (y, m, d), Some (y', m', d')) \<Rightarrow> y = y' \<and> m = m' | _ \<Rightarrow> False)"
proof -
  from assms obtain y m dd y' m' dd'
    where pd: "parseYMD d = Some (y, m, dd)" and ps: "parseYMD (sel @ ''-01'') = Some (y', m', dd')"
    by (auto simp: valid_date_def valid_month_def)
  from parseYMD_SomeD [OF pd] obtain a b c e f g h i
    where d: "d = [a, b, c, e, CHR ''-'', f, g, CHR ''-'', h, i]"
      and dd: "is_digit a" "is_digit b" "is_digit c" "is_digit e" "is_digit f" "is_digit g"
      and vd: "y = num4 a b c e" "m = num2 f g"
    by auto
  from parseYMD_SomeD [OF ps] obtain a' b' c' e' f' g' h' i'
    where s: "sel @ ''-01'' = [a', b', c', e', CHR ''-'', f', g', CHR ''-'', h', i']"
      and ds: "is_digit a'" "is_digit b'" "is_digit c'" "is_digit e'" "is_digit f'" "is_digit g'"
      and vs: "y' = num4 a' b' c' e'" "m' = num2 f' g'"
    by auto
  from s have "length (sel @ ''-01'') = 10" by simp
  then have len: "length sel = 7" by simp
  from s have "take 7 (sel @ ''-01'') = take 7 [a', b', c', e', CHR ''-'', f', g', CHR ''-'', h', i']"
    by simp
  with len have sel: "sel = [a', b', c', e', CHR ''-'', f', g']"
    by (simp add: numeral_eq_Suc)
  have "startsWith d sel = (a = a' \<and> b = b' \<and> c = c' \<and> e = e' \<and> f = f' \<and> g = g')"
    by (simp add: startsWith_def d sel)
  also have "\<dots> = (y = y' \<and> m = m')"
    by (simp add: vd vs num4_eq num2_eq dd ds)
  finally show ?thesis by (simp add: pd ps)
qed

lemma orZero_case: "orZero v = (case v of None \<Rightarrow> 0 | Some n \<Rightarrow> n)"
  by (simp add: orZero_def split: option.splits)

lemma dayEnd_dayDelta: "dayEnd b e = b + dayDelta e"
  by (simp add: dayEnd_def dayDelta_def orZero_case)

lemma foldl_dayEnd: "foldl dayEnd b es = b + sum_list (map dayDelta es)"
  by (induction es arbitrary: b) (simp_all add: dayEnd_dayDelta)

lemma chronological_set: "set (chronologicalEntries p) = set (dailyEntries p)"
  by (simp add: chronologicalEntries_def set_sortBy)

lemma leadBaseBefore_filter:
  assumes "all_dated p" "valid_month sel"
  shows "leadBaseBefore (sel @ ''-01'') b (chronologicalEntries p)
    = foldl dayEnd b (filter (before_month sel) (chronologicalEntries p))"
proof -
  let ?es = "chronologicalEntries p"
  have valid: "\<forall>e\<in>set (dailyEntries p). valid_date (date e)"
    using assms(1) by (simp add: all_dated_def list_all_iff)
  then have sorted: "sorted_wrt (\<lambda>a b. date_le (date a) (date b)) ?es"
    by (simp add: chronologicalEntries_def sorted_sortBy)
  have "takeWhile (\<lambda>e. str_lt (date e) (sel @ ''-01'')) ?es = takeWhile (before_month sel) ?es"
    using valid assms(2)
    by (intro takeWhile_cong refl)
      (simp add: chronological_set before_month_def str_lt_date_less valid_month_def)
  also have "\<dots> = filter (before_month sel) ?es"
    using sorted by (rule takeWhile_filter_sorted) (auto simp: before_month_def intro: date_le_less_trans)
  finally show ?thesis by (simp add: leadBaseBefore_takeWhile)
qed

lemma monthEntries_in_month:
  assumes "all_dated p" "valid_month sel"
  shows "monthEntries p sel = filter (in_month sel) (chronologicalEntries p)"
  unfolding monthEntries_def
proof (rule filter_cong [OF refl])
  fix e assume "e \<in> set (chronologicalEntries p)"
  with assms(1) have "valid_date (date e)"
    by (simp add: chronological_set all_dated_def list_all_iff)
  then show "startsWith (date e) sel = in_month sel e"
    using assms(2) by (simp add: startsWith_in_month in_month_def)
qed

lemma month_sum:
  assumes "all_dated p" "valid_month sel"
  shows "foldl (\<lambda>sum entry. sum + g entry) 0 (monthEntries p sel)
    = (sum_list (map g (filter (in_month sel) (dailyEntries p))) :: int)"
  by (simp add: monthEntries_in_month [OF assms] foldl_sum chronologicalEntries_def
      sum_filter_sortBy)

text \<open>
  C3. With every entry dated and \<open>sel\<close> a month \<open>YYYY-MM\<close>, and reading an absent
  \<open>repiqueLeads\<close> as 0: \<open>initialLeadsForMonth\<close> is the fold of
  balance + newLeads + repiqueLeads - discardedLeads - signedLeads from \<open>initialLeads\<close>
  over exactly the entries dated before the first day of the month (equally,
  \<open>initialLeads\<close> plus that day's change summed over those entries of the stored list);
  the four sums range over exactly the entries of the month; \<open>finalLeadsForMonth\<close> is
  initial + (new + repique) - discarded - signed; and a month without entries has all
  sums 0 and final equal to initial.
\<close>

theorem monthly_balances:
  assumes "all_dated p" and "valid_month sel"
  defines "s \<equiv> monthlySummary p sel"
  defines "inMonth \<equiv> filter (in_month sel) (dailyEntries p)"
  defines "repique \<equiv> \<lambda>e :: DailyEntry. case repiqueLeads e of None \<Rightarrow> 0 | Some n \<Rightarrow> n"
  shows "initialLeadsForMonth s
        = foldl (\<lambda>balance e.
              balance + newLeads e + repique e - discardedLeads e - signedLeads e)
            (initialLeads p) (filter (before_month sel) (chronologicalEntries p))
    \<and> initialLeadsForMonth s
        = initialLeads p
          + sum_list (map (\<lambda>e. newLeads e + repique e - discardedLeads e - signedLeads e)
              (filter (before_month sel) (dailyEntries p)))
    \<and> newLeadsSum s = sum_list (map newLeads inMonth)
    \<and> repiqueLeadsSum s = sum_list (map repique inMonth)
    \<and> discardedLeadsSum s = sum_list (map discardedLeads inMonth)
    \<and> signedLeadsSum s = sum_list (map signedLeads inMonth)
    \<and> finalLeadsForMonth s
        = initialLeadsForMonth s + (newLeadsSum s + repiqueLeadsSum s)
            - discardedLeadsSum s - signedLeadsSum s
    \<and> (inMonth = [] \<longrightarrow>
          newLeadsSum s = 0 \<and> repiqueLeadsSum s = 0 \<and> discardedLeadsSum s = 0
          \<and> signedLeadsSum s = 0 \<and> negotiationLeadsSum s = 0
          \<and> finalLeadsForMonth s = initialLeadsForMonth s)"
proof -
  note sums = month_sum [OF assms(1,2)]
  have step: "dayEnd = (\<lambda>balance e.
      balance + newLeads e + repique e - discardedLeads e - signedLeads e)"
    by (intro ext) (simp add: dayEnd_def orZero_case repique_def)
  have delta: "dayDelta = (\<lambda>e. newLeads e + repique e - discardedLeads e - signedLeads e)"
    by (intro ext) (simp add: dayDelta_def repique_def)
  have init0: "initialLeadsForMonth s
      = foldl dayEnd (initialLeads p) (filter (before_month sel) (chronologicalEntries p))"
    by (simp add: s_def monthlySummary_def Let_def leadBaseBefore_filter [OF assms(1,2)])
  then have init: "initialLeadsForMonth s
      = foldl (\<lambda>balance e.
            balance + newLeads e + repique e - discardedLeads e - signedLeads e)
          (initialLeads p) (filter (before_month sel) (chronologicalEntries p))"
    by (simp only: step)
  have "initialLeadsForMonth s
      = initialLeads p + sum_list (map dayDelta (filter (before_month sel) (dailyEntries p)))"
    unfolding init0 by (simp add: foldl_dayEnd chronologicalEntries_def sum_filter_sortBy)
  then have init': "initialLeadsForMonth s
      = initialLeads p
        + sum_list (map (\<lambda>e. newLeads e + repique e - discardedLeads e - signedLeads e)
            (filter (before_month sel) (dailyEntries p)))"
    by (simp only: delta)
  have new: "newLeadsSum s = sum_list (map newLeads inMonth)"
    by (simp add: s_def inMonth_def monthlySummary_def Let_def sums)
  have "repiqueLeadsSum s = sum_list (map (\<lambda>e. orZero (repiqueLeads e)) inMonth)"
    by (simp add: s_def inMonth_def monthlySummary_def Let_def sums)
  then have rep: "repiqueLeadsSum s = sum_list (map repique inMonth)"
    by (simp add: orZero_case repique_def)
  have dis: "discardedLeadsSum s = sum_list (map discardedLeads inMonth)"
    by (simp add: s_def inMonth_def monthlySummary_def Let_def sums)
  have sig: "signedLeadsSum s = sum_list (map signedLeads inMonth)"
    by (simp add: s_def inMonth_def monthlySummary_def Let_def sums)
  have neg: "negotiationLeadsSum s = sum_list (map negotiationLeads inMonth)"
    by (simp add: s_def inMonth_def monthlySummary_def Let_def sums)
  have fin: "finalLeadsForMonth s
      = initialLeadsForMonth s + (newLeadsSum s + repiqueLeadsSum s)
          - discardedLeadsSum s - signedLeadsSum s"
    by (simp add: s_def monthlySummary_def Let_def)
  have "newLeadsSum s = 0 \<and> repiqueLeadsSum s = 0 \<and> discardedLeadsSum s = 0
      \<and> signedLeadsSum s = 0 \<and> negotiationLeadsSum s = 0
      \<and> finalLeadsForMonth s = initialLeadsForMonth s" if "inMonth = []"
    unfolding fin unfolding new rep dis sig neg that by simp
  with init init' new rep dis sig fin show ?thesis by blast
qed

lemma scenario_valid_months: "valid_month ''2024-05''" "valid_month ''2024-06''"
  by (simp_all add: valid_month_def valid_date_def is_digit_def num4_def num2_def digit_val_def
      days_in_month_def)

lemma spring_months:
  "filter (before_month ''2024-05'') (dailyEntries springProfile) = [aprilDay]"
  "filter (in_month ''2024-05'') (dailyEntries springProfile)
     = [mayDay3, scenarioDay2, scenarioDay1]"
  "filter (before_month ''2024-06'') (dailyEntries springProfile)
     = [mayDay3, scenarioDay2, aprilDay, scenarioDay1]"
  "filter (in_month ''2024-06'') (dailyEntries springProfile) = []"
  by (simp_all add: springProfile_def scenarioDay1_def scenarioDay2_def aprilDay_def mayDay3_def
      in_month_def before_month_def date_less_def getTime_def msPerDay_def days_from_civil_def
      days_before_year_def days_before_month_def leap_def
      is_digit_def num4_def num2_def digit_val_def days_in_month_def)

theorem monthly_balances_witness:
  "all_dated springProfile \<and> valid_month ''2024-05'' \<and> valid_month ''2024-06''
   \<and> filter (before_month ''2024-05'') (dailyEntries springProfile) = [aprilDay]
   \<and> repiqueLeads aprilDay = Some 3 \<and> repiqueLeads mayDay3 = Some 2
   \<and> initialLeadsForMonth (monthlySummary springProfile ''2024-05'') = 14
   \<and> newLeadsSum (monthlySummary springProfile ''2024-05'') = 6
   \<and> repiqueLeadsSum (monthlySummary springProfile ''2024-05'') = 2
   \<and> discardedLeadsSum (monthlySummary springProfile ''2024-05'') = 1
   \<and> signedLeadsSum (monthlySummary springProfile ''2024-05'') = 4
   \<and> finalLeadsForMonth (monthlySummary springProfile ''2024-05'') = 17
   \<and> filter (in_month ''2024-06'') (dailyEntries springProfile) = []
   \<and> initialLeadsForMonth (monthlySummary springProfile ''2024-06'') = 17
   \<and> repiqueLeadsSum (monthlySummary springProfile ''2024-06'') = 0
   \<and> finalLeadsForMonth (monthlySummary springProfile ''2024-06'') = 17"
proof -
  have init: "initialLeads springProfile = 10"
    by (simp add: springProfile_def)
  have r: "repiqueLeads aprilDay = Some 3" "repiqueLeads mayDay3 = Some 2"
    by (simp_all add: aprilDay_def mayDay3_def)
  note may = monthly_balances [OF spring_dated scenario_valid_months(1)]
  note june = monthly_balances [OF spring_dated scenario_valid_months(2)]
  from may have m1: "initialLeadsForMonth (monthlySummary springProfile ''2024-05'') = 14"
    "newLeadsSum (monthlySummary springProfile ''2024-05'') = 6"
    "repiqueLeadsSum (monthlySummary springProfile ''2024-05'') = 2"
    "discardedLeadsSum (monthlySummary springProfile ''2024-05'') = 1"
    "signedLeadsSum (monthlySummary springProfile ''2024-05'') = 4"
    by (simp_all add: spring_months init)
      (simp_all add: aprilDay_def mayDay3_def scenarioDay1_def scenarioDay2_def)
  from may have "finalLeadsForMonth (monthlySummary springProfile ''2024-05'')
      = initialLeadsForMonth (monthlySummary springProfile ''2024-05'')
        + (newLeadsSum (monthlySummary springProfile ''2024-05'')
           + repiqueLeadsSum (monthlySummary springProfile ''2024-05''))
        - discardedLeadsSum (monthlySummary springProfile ''2024-05'')
        - signedLeadsSum (monthlySummary springProfile ''2024-05'')"
    by blast
  then have m2: "finalLeadsForMonth (monthlySummary springProfile ''2024-05'') = 17"
    by (simp add: m1)
  from june have j: "initialLeadsForMonth (monthlySummary springProfile ''2024-06'') = 17"
    "repiqueLeadsSum (monthlySummary springProfile ''2024-06'') = 0"
    "finalLeadsForMonth (monthlySummary springProfile ''2024-06'') = 17"
    by (simp_all add: spring_months init)
      (simp_all add: aprilDay_def mayDay3_def scenarioDay1_def scenarioDay2_def)
  from spring_dated scenario_valid_months spring_months(1,4) r m1 m2 j show ?thesis by simp
qed

section \<open>Properties of the conversion rate\<close>

lemma bitLength_bounds:
  "0 < n \<Longrightarrow> 2 ^ bitLength n \<le> 2 * n \<and> n < 2 ^ bitLength n"
proof (induction n rule: bitLength.induct)
  case (1 n)
  show ?case
  proof (cases "n = 1")
    case True
    then show ?thesis by (simp add: bitLength.simps [of 1] bitLength.simps [of 0])
  next
    case False
    with 1 have h: "0 < n div 2" by simp
    then have ih: "2 ^ bitLength (n div 2) \<le> 2 * (n div 2)" "n div 2 < 2 ^ bitLength (n div 2)"
      using 1 by auto
    have b: "bitLength n = Suc (bitLength (n div 2))"
      using 1(2) by (subst bitLength.simps) simp
    from ih show ?thesis unfolding b by auto
  qed
qed

lemma snd_scaleBy: "0 < snd x \<Longrightarrow> 0 < snd (scaleBy k x)"
  by (cases x) (simp add: scaleBy_def)

lemma val_scaleBy: "0 < snd x \<Longrightarrow> val (scaleBy k x) = val x * 2 powi k"
  by (cases x) (simp add: scaleBy_def val_def power_int_def field_simps)

lemma roundHalfEven_err:
  assumes "0 < d"
  shows "\<bar>real_of_int (roundHalfEven (n, d)) - real_of_int n / real_of_int d\<bar> \<le> 1 / 2"
proof -
  define q where "q = n div d"
  define r where "r = n mod d"
  have n: "n = q * d + r" by (simp add: q_def r_def)
  have r: "0 \<le> r" "r < d" using assms by (simp_all add: r_def)
  have v: "real_of_int n / real_of_int d = real_of_int q + real_of_int r / real_of_int d"
    using assms by (simp add: n field_simps)
  have lo: "2 * r \<le> d \<Longrightarrow> real_of_int r / real_of_int d \<le> 1 / 2"
    using assms by (simp add: field_simps)
  have hi: "d \<le> 2 * r \<Longrightarrow> 1 / 2 \<le> real_of_int r / real_of_int d"
    using assms by (simp add: field_simps)
  have f0: "0 \<le> real_of_int r / real_of_int d" using r assms by simp
  have f1: "real_of_int r / real_of_int d \<le> 1" using r assms by (simp add: field_simps)
  consider "2 * r < d" | "d < 2 * r" | "2 * r = d" by linarith
  then show ?thesis
  proof cases
    case 1
    then have "roundHalfEven (n, d) = q" by (simp add: roundHalfEven_def Let_def q_def r_def)
    then show ?thesis using lo 1 f0 by (simp add: v)
  next
    case 2
    then have "roundHalfEven (n, d) = q + 1" by (simp add: roundHalfEven_def Let_def q_def r_def)
    then show ?thesis using hi 2 f1 by (simp add: v)
  next
    case 3
    then have "roundHalfEven (n, d) = q \<or> roundHalfEven (n, d) = q + 1"
      by (simp add: roundHalfEven_def Let_def q_def r_def)
    moreover have "real_of_int r / real_of_int d = 1 / 2" using lo hi 3 by fastforce
    ultimately show ?thesis unfolding v by fastforce
  qed
qed


lemma bitLength_real:
  assumes "0 < n"
  shows "(2::real) ^ bitLength n \<le> 2 * real_of_int n" "real_of_int n < 2 ^ bitLength n"
proof -
  from bitLength_bounds [OF assms]
  have "real_of_int (2 ^ bitLength n) \<le> real_of_int (2 * n)"
    "real_of_int n < real_of_int (2 ^ bitLength n)"
    by (simp_all only: of_int_le_iff of_int_less_iff)
  then show "(2::real) ^ bitLength n \<le> 2 * real_of_int n" "real_of_int n < 2 ^ bitLength n"
    by simp_all
qed

lemma exponentOf_bounds:
  assumes "0 < num" "0 < den"
  shows "2 ^ 52 \<le> val (num, den) * 2 powi (- exponentOf (num, den))"
    and "val (num, den) * 2 powi (- exponentOf (num, den)) < 2 ^ 53"
proof -
  define A :: real where "A = 2 ^ bitLength num"
  define B :: real where "B = 2 ^ bitLength den"
  define N where "N = real_of_int num"
  define D where "D = real_of_int den"
  define e where "e = int (bitLength num) - int (bitLength den) - 53"
  define w where "w = val (num, den) * 2 powi (- e)"
  have pos: "0 < A" "0 < B" "0 < N" "0 < D" using assms by (simp_all add: A_def B_def N_def D_def)
  have bn: "A \<le> 2 * N" "N < A" unfolding A_def N_def using bitLength_real [OF assms(1)] by auto
  have bd: "B \<le> 2 * D" "D < B" unfolding B_def D_def using bitLength_real [OF assms(2)] by auto
  have "- e = int (bitLength den) + 53 - int (bitLength num)" by (simp add: e_def)
  then have "(2::real) powi (- e) = B * 2 ^ 53 / A"
    by (simp add: power_int_diff power_int_add A_def B_def)
  then have w: "w = N * B * 2 ^ 53 / (D * A)"
    by (simp add: w_def val_def N_def D_def)
  have "D * A < B * A" using bd pos by simp
  also have "\<dots> \<le> B * (2 * N)" using bn pos by simp
  finally have l: "D * A < 2 * (N * B)" by (simp add: mult_ac)
  have "N * B < A * B" using bn pos by simp
  also have "\<dots> \<le> A * (2 * D)" using bd pos by simp
  finally have u: "N * B < 2 * (D * A)" by (simp add: mult_ac)
  have da: "0 < D * A" using pos by simp
  have wl: "2 ^ 52 < w" unfolding w using l da by (simp add: field_simps)
  have wu: "w < 2 ^ 54" unfolding w using u da by (simp add: field_simps)
  obtain n d where nd: "scaleBy (- e) (num, den) = (n, d)" by (cases "scaleBy (- e) (num, den)")
  have d: "0 < d" using snd_scaleBy [of "(num, den)" "- e"] assms nd by simp
  have vw: "real_of_int n / real_of_int d = w"
    using val_scaleBy [of "(num, den)" "- e"] assms nd by (simp add: w_def val_def)
  have c: "2 ^ 53 * d \<le> n \<longleftrightarrow> 2 ^ 53 \<le> w"
  proof -
    have "2 ^ 53 * d \<le> n \<longleftrightarrow> real_of_int (2 ^ 53 * d) \<le> real_of_int n"
      by (simp only: of_int_le_iff)
    also have "\<dots> \<longleftrightarrow> 2 ^ 53 \<le> real_of_int n / real_of_int d"
      using d by (simp add: field_simps)
    finally show ?thesis by (simp add: vw)
  qed
  have "exponentOf (num, den) = (if 2 ^ 53 * d \<le> n then e + 1 else e)"
    unfolding exponentOf_def Let_def prod.case e_def [symmetric] nd ..
  then have ex: "exponentOf (num, den) = (if 2 ^ 53 \<le> w then e + 1 else e)"
    by (simp only: c)
  have half: "val (num, den) * 2 powi (- (e + 1)) = w / 2"
    by (simp add: w_def power_int_diff power_int_minus field_simps)
  show "2 ^ 52 \<le> val (num, den) * 2 powi (- exponentOf (num, den))"
  proof (cases "2 ^ 53 \<le> w")
    case True
    then show ?thesis unfolding ex by (simp only: if_True half; simp)
  next
    case False
    then show ?thesis unfolding ex using wl by (simp only: if_False w_def [symmetric]; simp)
  qed
  show "val (num, den) * 2 powi (- exponentOf (num, den)) < 2 ^ 53"
  proof (cases "2 ^ 53 \<le> w")
    case True
    then show ?thesis unfolding ex using wu by (simp only: if_True half; simp)
  next
    case False
    then show ?thesis unfolding ex by (simp only: if_False w_def [symmetric]; simp)
  qed
qed











text \<open>
  The doubles of the rate stay normal: for two positive integers below \<open>2^53\<close> the
  significands of the quotient and of its product by 100 lie in \<open>2^52 .. 2^53\<close> and the
  exponents in \<open>-159 .. 8\<close>, where binary64 allows \<open>-1074 .. 971\<close>.
\<close>

lemma bitLength_range:
  assumes "0 < n" "n < 2 ^ k"
  shows "1 \<le> bitLength n" "bitLength n \<le> k"
proof -
  from bitLength_bounds [OF assms(1)]
  have b: "2 ^ bitLength n \<le> 2 * n" "n < 2 ^ bitLength n" by simp_all
  show "1 \<le> bitLength n"
  proof (rule ccontr)
    assume "\<not> 1 \<le> bitLength n"
    then have "bitLength n = 0" by simp
    with b(2) assms(1) show False by simp
  qed
  from b(1) assms(2) have "(2::int) ^ bitLength n < 2 ^ Suc k" by simp
  then have "bitLength n < Suc k" by (simp only: power_strict_increasing_iff rel_simps)
  then show "bitLength n \<le> k" by simp
qed

lemma exponentOf_range:
  assumes "0 < num" "num < 2 ^ k" "0 < den" "den < 2 ^ l"
  shows "- int l - 52 \<le> exponentOf (num, den)" "exponentOf (num, den) \<le> int k - 53"
proof -
  define e where "e = int (bitLength num) - int (bitLength den) - 53"
  have "exponentOf (num, den) = e \<or> exponentOf (num, den) = e + 1"
    by (simp add: exponentOf_def Let_def e_def split: prod.splits)
  moreover have "- int l - 52 \<le> e" "e + 1 \<le> int k - 53"
    using bitLength_range [OF assms(1,2)] bitLength_range [OF assms(3,4)]
    by (simp_all add: e_def)
  ultimately show "- int l - 52 \<le> exponentOf (num, den)" "exponentOf (num, den) \<le> int k - 53"
    by auto
qed

lemma toDouble_significand:
  assumes "0 < num" "0 < den"
  shows "\<exists>m. toDouble (num, den) = scaleBy (exponentOf (num, den)) (m, 1)
      \<and> 2 ^ 52 \<le> m \<and> m \<le> 2 ^ 53"
proof -
  define e where "e = exponentOf (num, den)"
  define w where "w = val (num, den) * 2 powi (- e)"
  define m where "m = roundHalfEven (scaleBy (- e) (num, den))"
  have t: "toDouble (num, den) = scaleBy e (m, 1)"
    using assms by (simp add: toDouble_def Let_def e_def m_def)
  obtain n d where nd: "scaleBy (- e) (num, den) = (n, d)" by (cases "scaleBy (- e) (num, den)")
  have d: "0 < d" using snd_scaleBy [of "(num, den)" "- e"] assms nd by simp
  have "real_of_int n / real_of_int d = w"
    using val_scaleBy [of "(num, den)" "- e"] assms nd by (simp add: w_def val_def)
  with roundHalfEven_err [OF d, of n] have err: "\<bar>real_of_int m - w\<bar> \<le> 1 / 2"
    by (simp add: m_def nd)
  have "2 ^ 52 \<le> w" "w < 2 ^ 53"
    using exponentOf_bounds [OF assms] by (simp_all add: w_def e_def)
  then have "4503599627370496 \<le> w" "w < 9007199254740992" by simp_all
  with err have "4503599627370496 - 1 < real_of_int m" "real_of_int m < 9007199254740992 + 1"
    by linarith+
  then have "4503599627370496 - 1 < m" "m < 9007199254740992 + 1" by linarith+
  then have "2 ^ 52 \<le> m" "m \<le> 2 ^ 53" by simp_all
  with t show ?thesis unfolding e_def by blast
qed

lemma rate_exponents:
  assumes "0 < s" "s < 2 ^ 53" "0 < t" "t < 2 ^ 53"
  shows "- 105 \<le> exponentOf (s, t)" "exponentOf (s, t) \<le> 0"
    and "- 159 \<le> exponentOf (fst (jsDivide s t) * 100, snd (jsDivide s t))"
    and "exponentOf (fst (jsDivide s t) * 100, snd (jsDivide s t)) \<le> 8"
proof -
  define e where "e = exponentOf (s, t)"
  have e: "- 105 \<le> e" "e \<le> 0"
    using exponentOf_range [OF assms] by (simp_all add: e_def)
  then show "- 105 \<le> exponentOf (s, t)" "exponentOf (s, t) \<le> 0" by (simp_all add: e_def)
  from toDouble_significand [OF assms(1,3)]
  obtain m where m: "jsDivide s t = scaleBy e (m, 1)" "2 ^ 52 \<le> m" "m \<le> 2 ^ 53"
    unfolding jsDivide_def e_def by blast
  define a where "a = fst (jsDivide s t) * 100"
  define b where "b = snd (jsDivide s t)"
  have ab: "a = m * 100 \<and> b = 2 ^ nat (- e)"
    using e by (cases "e = 0") (simp_all add: a_def b_def m(1) scaleBy_def)
  have "nat (- e) \<le> 105" using e by simp
  then have "(2::int) ^ nat (- e) \<le> 2 ^ 105" by (intro power_increasing) simp_all
  then have b: "0 < b" "b < 2 ^ 106" using ab by simp_all
  have a: "0 < a" "a < 2 ^ 61" using ab m(2,3) by simp_all
  from exponentOf_range [OF a b]
  show "- 159 \<le> exponentOf (fst (jsDivide s t) * 100, snd (jsDivide s t))"
    and "exponentOf (fst (jsDivide s t) * 100, snd (jsDivide s t)) \<le> 8"
    by (simp_all add: a_def b_def)
qed










section \<open>Properties of the commit handlers\<close>

declare bulkLoop.simps [simp del] bulkDates.simps [simp del]

lemma updatedEntry_bulkStep: "updatedEntry (bulkStep d w) d' = updatedEntry w d'"
  by (simp add: updatedEntry_def bulkStep_def bulkValue_def findEntry_def)

lemma updatedEntry_cong:
  "profile w' = profile w \<Longrightarrow> bulkDailyData w' = bulkDailyData w \<Longrightarrow>
   updatedEntry w' = updatedEntry w"
  by (rule ext) (simp add: updatedEntry_def bulkValue_def findEntry_def)

lemma nextLocalDay_eq: "nextLocalDay tz t = t + msPerDay"
  by (simp add: nextLocalDay_def Let_def algebra_simps)

lemma saved_bulkLoop:
  "saved (bulkLoop tz c e w) = saved w @ map (updatedEntry w) (bulkDates c e)"
proof (induction tz c e w rule: bulkLoop.induct)
  case (1 tz c e w)
  show ?case
  proof (cases "c \<le> e")
    case True
    have "updatedEntry (bulkStep (toISODate c) w) = updatedEntry w"
      by (rule updatedEntry_cong) (simp_all add: bulkStep_def)
    with 1 [OF True] True show ?thesis
      by (subst bulkLoop.simps, subst bulkDates.simps) (simp add: bulkStep_def nextLocalDay_eq)
  next
    case False
    then show ?thesis
      by (subst bulkLoop.simps, subst bulkDates.simps) simp
  qed
qed

lemma date_updatedEntry: "date (updatedEntry w d) = d"
  by (simp add: updatedEntry_def Let_def)

lemma discardReason_updatedEntry:
  "discardReason (updatedEntry w d)
    = Some (case findEntry w d of None \<Rightarrow> [] | Some e \<Rightarrow> orEmpty (discardReason e))"
  by (simp add: updatedEntry_def Let_def)

lemma saved_alert: "saved (alert a w) = saved w"
  by (simp add: alert_def)

lemma saved_handleBulkSave:
  "saved (handleBulkSave today tz w) = saved w
   \<or> (\<exists>ds. saved (handleBulkSave today tz w) = saved w @ map (updatedEntry w) ds)"
  by (auto simp: handleBulkSave_def saved_alert saved_bulkLoop Let_def split: option.splits)

text \<open>
  C5 (as amended). A single-day commit hands \<open>onSaveEntry\<close> at most one entry, dated
  \<open>selectedDate\<close>; when its \<open>discardedLeads\<close> is 0 its \<open>discardReason\<close> is the empty
  string whatever the form held, and otherwise it is the form's reason. A bulk commit
  does no such cleanup: every entry it writes carries the \<open>discardReason\<close> of the stored
  entry of its date, or the empty string when there is none.
\<close>

theorem discard_reason_cleanup:
  "(saved (handleSubmit today w) = saved w
     \<or> (\<exists>d. dailyData w = Fields d
          \<and> saved (handleSubmit today w)
              = saved w @ [DailyData.extend
                  (if discardedLeads d = 0 then d\<lparr>discardReason := Some []\<rparr> else d)
                  \<lparr>date = selectedDate w\<rparr>]))
   \<and> (\<forall>e \<in> set (saved (handleSubmit today w)) - set (saved w).
         discardedLeads e = 0 \<longrightarrow> discardReason e = Some [])
   \<and> (\<forall>e \<in> set (saved (handleBulkSave today tz w)) - set (saved w).
         discardReason e
           = Some (case findEntry w (date e) of None \<Rightarrow> []
                   | Some x \<Rightarrow> orEmpty (discardReason x)))"
proof (intro conjI)
  show single: "saved (handleSubmit today w) = saved w
     \<or> (\<exists>d. dailyData w = Fields d
          \<and> saved (handleSubmit today w)
              = saved w @ [DailyData.extend
                  (if discardedLeads d = 0 then d\<lparr>discardReason := Some []\<rparr> else d)
                  \<lparr>date = selectedDate w\<rparr>])"
    by (cases "dailyData w") (simp_all add: handleSubmit_def saved_alert Let_def)
  then show "\<forall>e \<in> set (saved (handleSubmit today w)) - set (saved w).
      discardedLeads e = 0 \<longrightarrow> discardReason e = Some []"
    by (auto simp: DailyData.defs split: if_splits)
  show "\<forall>e \<in> set (saved (handleBulkSave today tz w)) - set (saved w).
      discardReason e = Some (case findEntry w (date e) of None \<Rightarrow> []
        | Some x \<Rightarrow> orEmpty (discardReason x))"
    using saved_handleBulkSave [of today tz w]
    by (auto simp: date_updatedEntry discardReason_updatedEntry)
qed

theorem discard_reason_cleanup_witness:
  "dailyData staleReasonWorld = Fields (initialState\<lparr>discardReason := Some ''stale''\<rparr>)
   \<and> saved staleReasonWorld = []
   \<and> saved (handleSubmit ''2024-05-10'' staleReasonWorld)
       = [DailyData.extend (initialState\<lparr>discardReason := Some []\<rparr>) \<lparr>date = ''2024-05-03''\<rparr>]
   \<and> discardReason (hd (saved (handleSubmit ''2024-05-10'' staleReasonWorld))) = Some []"
proof -
  have w: "dailyData staleReasonWorld = Fields (initialState\<lparr>discardReason := Some ''stale''\<rparr>)"
    "saved staleReasonWorld = []" "selectedDate staleReasonWorld = ''2024-05-03''"
    by (simp_all add: staleReasonWorld_def idleWorld_def)
  have changed: "saved (handleSubmit ''2024-05-10'' staleReasonWorld) \<noteq> saved staleReasonWorld"
    by (simp add: handleSubmit_def staleReasonWorld_def idleWorld_def str_gt_def hasActive_def
        fieldOrder_def alert_def Let_def)
  from discard_reason_cleanup [of "''2024-05-10''" staleReasonWorld] changed w
  have "saved (handleSubmit ''2024-05-10'' staleReasonWorld)
      = [DailyData.extend (initialState\<lparr>discardReason := Some []\<rparr>) \<lparr>date = ''2024-05-03''\<rparr>]"
    by (auto simp: initialState_def)
  with w show ?thesis by (simp add: DailyData.defs)
qed

text \<open>
  C5 as stated fails for the bulk path: overriding \<open>discardedLeads\<close> with 0 on a day
  stored with a reason writes an entry with \<open>discardedLeads = 0\<close> and the old reason.
\<close>

lemma bulk_zero_discard_saved:
  "saved (handleBulkSave ''2024-05-10'' 180 bulkZeroDiscardWorld)
     = [scenarioDay1\<lparr>discardedLeads := 0, repiqueLeads := Some 0\<rparr>]"
  by code_simp

theorem bulk_keeps_reason_counterexample:
  "saved (handleBulkSave ''2024-05-10'' 180 bulkZeroDiscardWorld)
     = [scenarioDay1\<lparr>discardedLeads := 0, repiqueLeads := Some 0\<rparr>]
   \<and> discardedLeads (scenarioDay1\<lparr>discardedLeads := 0, repiqueLeads := Some 0\<rparr>) = 0
   \<and> discardReason (scenarioDay1\<lparr>discardedLeads := 0, repiqueLeads := Some 0\<rparr>) = Some ''spam''"
  by (simp add: bulk_zero_discard_saved) (simp add: scenarioDay1_def)

text \<open>
  C6 (the code at the failing input). In a zone one hour east of UTC
  (\<open>getTimezoneOffset() = -60\<close>) a bulk commit over the single day 2024-05-01 writes one
  entry, dated 2024-04-30: the loop starts at local midnight and names the day by
  \<open>toISOString\<close>, the UTC date of that instant.
\<close>

theorem bulk_dates_shift_east_of_utc:
  "bulkStartDate idleWorld = ''2024-05-01'' \<and> bulkEndDate idleWorld = ''2024-05-01''
   \<and> map date (saved (handleBulkSave ''2024-05-10'' (- 60) idleWorld)) = [''2024-04-30'']
   \<and> map date (saved (handleBulkSave ''2024-05-10'' 180 idleWorld)) = [''2024-05-01'']"
  by code_simp

lemma field_in_order: "f \<in> set fieldOrder"
  by (cases f) (simp_all add: fieldOrder_def)

lemma hasActive_iff: "hasActive errs = (\<exists>f. errs f = Some True)"
  by (auto simp: hasActive_def list_ex_iff field_in_order)

lemma date_less_valid: "date_less a b \<Longrightarrow> valid_date a \<and> valid_date b"
  by (auto simp: date_less_def getTime_def valid_date_def split: option.splits)

lemma date_less_str_gt: "date_less a b \<Longrightarrow> str_gt b a"
  using date_less_valid [of a b] by (simp add: str_gt_def str_lt_date_less)

lemma valid_date_nonempty: "valid_date a \<Longrightarrow> a \<noteq> []"
  by (auto simp: valid_date_def)

lemma rejectedI: "is_error a \<Longrightarrow> w' = alert a w \<Longrightarrow> rejected w w'"
  by (cases a) (simp_all add: rejected_def allAlerts_def is_error_def)

lemma rejected_no_write:
  "rejected w w' \<Longrightarrow> saved w' = saved w \<and> localStorage w' = localStorage w \<and> profile w' = profile w"
  by (auto simp: rejected_def list_ex_iff alert_def)

lemma handleSubmit_rejects:
  assumes "dailyData w = Fields d"
    and "date_less today (selectedDate w) \<or> (\<exists>f. errors w f = Some True)"
  shows "rejected w (handleSubmit today w)"
proof -
  consider "selectedDate w = []"
    | "selectedDate w \<noteq> []" "str_gt (selectedDate w) today"
    | "selectedDate w \<noteq> []" "\<not> str_gt (selectedDate w) today" "hasActive (errors w)"
    using assms(2) date_less_str_gt [of today "selectedDate w"] by (auto simp: hasActive_iff)
  then show ?thesis
  proof cases
    case 1
    then show ?thesis
      by (intro rejectedI [of AlertSelectDate]) (simp_all add: is_error_def handleSubmit_def assms(1))
  next
    case 2
    then show ?thesis
      by (intro rejectedI [of AlertFutureDate]) (simp_all add: is_error_def handleSubmit_def assms(1))
  next
    case 3
    then show ?thesis
      by (intro rejectedI [of AlertFixErrors]) (simp_all add: is_error_def handleSubmit_def assms(1))
  qed
qed

lemma handleBulkSave_rejects:
  assumes "date_less today (bulkStartDate w) \<or> date_less today (bulkEndDate w)
    \<or> date_less (bulkEndDate w) (bulkStartDate w) \<or> (\<exists>f. bulkErrors w f = Some True)"
  shows "rejected w (handleBulkSave today tz w)"
proof -
  let ?s = "bulkStartDate w" and ?e = "bulkEndDate w"
  consider "?s = []" | "?s \<noteq> []" "?e = []"
    | "?s \<noteq> []" "?e \<noteq> []" "str_gt ?s today"
    | "?s \<noteq> []" "?e \<noteq> []" "\<not> str_gt ?s today" "str_gt ?e today"
    | "?s \<noteq> []" "?e \<noteq> []" "\<not> str_gt ?s today" "\<not> str_gt ?e today" "str_gt ?s ?e"
    | "?s \<noteq> []" "?e \<noteq> []" "\<not> str_gt ?s today" "\<not> str_gt ?e today" "\<not> str_gt ?s ?e"
      "hasActive (bulkErrors w)"
    using assms date_less_str_gt [of today ?s] date_less_str_gt [of today ?e]
      date_less_str_gt [of ?e ?s]
    by (auto simp: hasActive_iff)
  then show ?thesis
  proof cases
    case 1
    then show ?thesis
      by (intro rejectedI [of AlertBulkNoStart]) (simp_all add: is_error_def handleBulkSave_def)
  next
    case 2
    then show ?thesis
      by (intro rejectedI [of AlertBulkNoEnd]) (simp_all add: is_error_def handleBulkSave_def)
  next
    case 3
    then show ?thesis
      by (intro rejectedI [of AlertBulkStartFuture]) (simp_all add: is_error_def handleBulkSave_def)
  next
    case 4
    then show ?thesis
      by (intro rejectedI [of AlertBulkEndFuture]) (simp_all add: is_error_def handleBulkSave_def)
  next
    case 5
    then show ?thesis
      by (intro rejectedI [of AlertBulkStartAfterEnd])
        (simp_all add: is_error_def handleBulkSave_def)
  next
    case 6
    then show ?thesis
      by (intro rejectedI [of AlertFixErrors]) (simp_all add: is_error_def handleBulkSave_def)
  qed
qed

text \<open>
  What the bulk loop writes, in any time zone: one entry per visited day, as many as
  the range has days, each counter the override if it is a number, else the stored value,
  else 0.
\<close>

lemma bulk_entry_fields:
  "getField f (updatedEntry w d)
    = Some (case bulkDailyData w f of
              Some (Num n) \<Rightarrow> n
            | _ \<Rightarrow> (case findEntry w d of
                      None \<Rightarrow> 0
                    | Some e \<Rightarrow> (case getField f e of None \<Rightarrow> 0 | Some n \<Rightarrow> n)))"
  by (cases f)
    (simp_all add: getField_def updatedEntry_def bulkValue_def Let_def
      split: option.splits input_value.splits)

lemma length_bulkDates:
  "length (bulkDates c e) = (if c \<le> e then nat ((e - c) div msPerDay) + 1 else 0)"
proof (induction c e rule: bulkDates.induct)
  case (1 c e)
  show ?case
  proof (cases "c \<le> e")
    case False
    then show ?thesis by (subst bulkDates.simps) simp
  next
    case True
    have ms: "0 < msPerDay" by (simp add: msPerDay_def)
    have len: "length (bulkDates c e) = Suc (length (bulkDates (c + msPerDay) e))"
      using True by (subst bulkDates.simps) simp
    show ?thesis
    proof (cases "c + msPerDay \<le> e")
      case next_day: True
      have "(e - c) div msPerDay = (e - (c + msPerDay)) div msPerDay + 1"
      proof -
        have "e - c = (e - (c + msPerDay)) + msPerDay" by simp
        then show ?thesis using ms by (metis div_add_self2 less_irrefl)
      qed
      moreover have "0 \<le> (e - (c + msPerDay)) div msPerDay"
        using next_day ms by (simp add: pos_imp_zdiv_nonneg_iff)
      ultimately show ?thesis
        using 1 [OF True] True next_day by (simp add: len nat_add_distrib)
    next
      case False
      with True ms have "(e - c) div msPerDay = 0" by (simp add: div_pos_pos_trivial)
      with 1 [OF True] True False show ?thesis by (simp add: len)
    qed
  qed
qed

lemma bulk_write_count:
  assumes "parseYMD (bulkStartDate w) = Some a" "parseYMD (bulkEndDate w) = Some b"
    and "days_from_civil a \<le> days_from_civil b"
    and "\<not> rejected w (handleBulkSave today tz w)"
  shows "length (saved (handleBulkSave today tz w))
    = length (saved w) + nat (days_from_civil b - days_from_civil a) + 1"
proof -
  have ms: "msPerDay \<noteq> 0" by (simp add: msPerDay_def)
  let ?c = "days_from_civil a * msPerDay + tz * 60000"
  let ?e = "days_from_civil b * msPerDay + tz * 60000"
  have run: "saved (handleBulkSave today tz w) = saved (bulkLoop tz ?c ?e w)"
  proof (rule ccontr)
    assume neq: "saved (handleBulkSave today tz w) \<noteq> saved (bulkLoop tz ?c ?e w)"
    then have "\<exists>x. is_error x \<and> handleBulkSave today tz w = alert x w"
      by (auto simp: handleBulkSave_def localMidnight_def assms(1,2) saved_alert is_error_def
          Let_def split: if_splits)
    then have "rejected w (handleBulkSave today tz w)" using rejectedI by blast
    with assms(4) show False by simp
  qed
  have "?e - ?c = (days_from_civil b - days_from_civil a) * msPerDay"
    by (simp add: algebra_simps)
  then have "(?e - ?c) div msPerDay = days_from_civil b - days_from_civil a"
    using ms by simp
  moreover have "?c \<le> ?e"
    using assms(3) by (simp add: msPerDay_def)
  ultimately show ?thesis
    unfolding run saved_bulkLoop by (simp add: length_bulkDates)
qed

text \<open>
  C7. A single-day commit is rejected when the selected date lies after today or a
  counter is flagged, and a counter is flagged from the moment a negative number is typed
  into it until that field is typed into again. A bulk commit is rejected when either
  boundary lies after today, when the start lies after the end, or when an override is
  flagged, which a negative override is. A rejected call shows an error message and leaves
  everything else as it was: nothing is handed to \<open>onSaveEntry\<close> and localStorage is
  untouched.
\<close>

theorem validation_rejects:
  "(renders w \<and> (date_less today (selectedDate w) \<or> (\<exists>f. errors w f = Some True))
      \<longrightarrow> rejected w (handleSubmit today w))
   \<and> (renders w \<and> n < 0
      \<longrightarrow> rejected (handleNumberChange f (Num n) w)
            (handleSubmit today (handleNumberChange f (Num n) w)))
   \<and> (errors w f = Some True \<and> g \<noteq> f \<longrightarrow> errors (handleNumberChange g v w) f = Some True)
   \<and> (date_less today (bulkStartDate w) \<or> date_less today (bulkEndDate w)
        \<or> date_less (bulkEndDate w) (bulkStartDate w) \<or> (\<exists>f. bulkErrors w f = Some True)
      \<longrightarrow> rejected w (handleBulkSave today tz w))
   \<and> (n < 0
      \<longrightarrow> rejected (handleBulkNumberChange f (Num n) w)
            (handleBulkSave today tz (handleBulkNumberChange f (Num n) w)))
   \<and> (bulkErrors w f = Some True \<and> g \<noteq> f
      \<longrightarrow> bulkErrors (handleBulkNumberChange g v w) f = Some True)
   \<and> (rejected w w' \<longrightarrow> saved w' = saved w \<and> localStorage w' = localStorage w)"
proof (intro conjI impI)
  assume "renders w \<and> (date_less today (selectedDate w) \<or> (\<exists>f. errors w f = Some True))"
  then show "rejected w (handleSubmit today w)"
    by (cases "dailyData w") (auto simp: renders_def intro: handleSubmit_rejects)
next
  assume a: "renders w \<and> n < 0"
  then obtain d where d: "dailyData w = Fields d"
    by (cases "dailyData w") (auto simp: renders_def)
  let ?w = "handleNumberChange f (Num n) w"
  have "errors ?w f = Some True" using a by (simp add: handleNumberChange_def d negative_def)
  moreover have "\<exists>d'. dailyData ?w = Fields d'" by (simp add: handleNumberChange_def d)
  ultimately show "rejected ?w (handleSubmit today ?w)"
    using handleSubmit_rejects [of ?w _ today] by blast
next
  assume "errors w f = Some True \<and> g \<noteq> f"
  then show "errors (handleNumberChange g v w) f = Some True"
    by (cases "dailyData w") (auto simp: handleNumberChange_def)
next
  assume "date_less today (bulkStartDate w) \<or> date_less today (bulkEndDate w)
        \<or> date_less (bulkEndDate w) (bulkStartDate w) \<or> (\<exists>f. bulkErrors w f = Some True)"
  then show "rejected w (handleBulkSave today tz w)"
    by (rule handleBulkSave_rejects)
next
  assume "n < 0"
  then have "bulkErrors (handleBulkNumberChange f (Num n) w) f = Some True"
    by (simp add: handleBulkNumberChange_def negative_def)
  then show "rejected (handleBulkNumberChange f (Num n) w)
      (handleBulkSave today tz (handleBulkNumberChange f (Num n) w))"
    by (intro handleBulkSave_rejects) blast
next
  assume "bulkErrors w f = Some True \<and> g \<noteq> f"
  then show "bulkErrors (handleBulkNumberChange g v w) f = Some True"
    by (auto simp: handleBulkNumberChange_def)
next
  assume "rejected w w'"
  then show "saved w' = saved w" "localStorage w' = localStorage w"
    using rejected_no_write by blast+
qed

lemma scenario_future: "date_less ''2024-05-10'' ''2024-05-20''" "date_less ''2024-05-01'' ''2024-05-02''"
  by (simp_all add: date_less_def getTime_def msPerDay_def days_from_civil_def
      days_before_year_def days_before_month_def leap_def
      is_digit_def num4_def num2_def digit_val_def days_in_month_def)

theorem validation_rejects_witness:
  "renders futureDateWorld \<and> date_less ''2024-05-10'' (selectedDate futureDateWorld)
   \<and> rejected futureDateWorld (handleSubmit ''2024-05-10'' futureDateWorld)
   \<and> saved (handleSubmit ''2024-05-10'' futureDateWorld) = []
   \<and> alerts (handleSubmit ''2024-05-10'' futureDateWorld) = [AlertFutureDate]
   \<and> renders idleWorld \<and> (- 1 :: int) < 0
   \<and> rejected (handleNumberChange NewLeads (Num (- 1)) idleWorld)
        (handleSubmit ''2024-05-10'' (handleNumberChange NewLeads (Num (- 1)) idleWorld))
   \<and> date_less (bulkEndDate reversedRangeWorld) (bulkStartDate reversedRangeWorld)
   \<and> rejected reversedRangeWorld (handleBulkSave ''2024-05-10'' 180 reversedRangeWorld)
   \<and> saved (handleBulkSave ''2024-05-10'' 180 reversedRangeWorld) = []
   \<and> rejected (handleBulkNumberChange SignedLeads (Num (- 2)) idleWorld)
        (handleBulkSave ''2024-05-10'' 180 (handleBulkNumberChange SignedLeads (Num (- 2)) idleWorld))"
proof -
  have r1: "renders futureDateWorld" "renders idleWorld"
    by (simp_all add: renders_def futureDateWorld_def idleWorld_def)
  have d1: "date_less ''2024-05-10'' (selectedDate futureDateWorld)"
    using scenario_future(1) by (simp add: futureDateWorld_def idleWorld_def)
  have d2: "date_less (bulkEndDate reversedRangeWorld) (bulkStartDate reversedRangeWorld)"
    using scenario_future(2) by (simp add: reversedRangeWorld_def idleWorld_def)
  have s0: "saved futureDateWorld = []" "saved reversedRangeWorld = []"
    by (simp_all add: futureDateWorld_def reversedRangeWorld_def idleWorld_def)
  have a1: "alerts (handleSubmit ''2024-05-10'' futureDateWorld) = [AlertFutureDate]"
    by (simp add: handleSubmit_def futureDateWorld_def idleWorld_def str_gt_def alert_def)
  note v1 = validation_rejects [of futureDateWorld "''2024-05-10''" 0 NewLeads NewLeads Blank 0
      "handleSubmit ''2024-05-10'' futureDateWorld"]
  note v2 = validation_rejects [of idleWorld "''2024-05-10''" "- 1" NewLeads NewLeads Blank 0 idleWorld]
  note v3 = validation_rejects [of reversedRangeWorld "''2024-05-10''" 0 NewLeads NewLeads Blank 180
      "handleBulkSave ''2024-05-10'' 180 reversedRangeWorld"]
  note v4 = validation_rejects [of idleWorld "''2024-05-10''" "- 2" SignedLeads NewLeads Blank 180 idleWorld]
  from v1 r1 d1 s0 have "rejected futureDateWorld (handleSubmit ''2024-05-10'' futureDateWorld)"
    "saved (handleSubmit ''2024-05-10'' futureDateWorld) = []" by auto
  moreover from v2 r1 have "rejected (handleNumberChange NewLeads (Num (- 1)) idleWorld)
        (handleSubmit ''2024-05-10'' (handleNumberChange NewLeads (Num (- 1)) idleWorld))" by simp
  moreover from v3 d2 s0 have "rejected reversedRangeWorld (handleBulkSave ''2024-05-10'' 180 reversedRangeWorld)"
    "saved (handleBulkSave ''2024-05-10'' 180 reversedRangeWorld) = []" by auto
  moreover from v4 have "rejected (handleBulkNumberChange SignedLeads (Num (- 2)) idleWorld)
        (handleBulkSave ''2024-05-10'' 180 (handleBulkNumberChange SignedLeads (Num (- 2)) idleWorld))" by simp
  ultimately show ?thesis using r1 d1 d2 a1 by simp
qed

section \<open>Properties of the read path and the draft cache\<close>

lemma findEntry_Some: "findEntry w d = Some e \<Longrightarrow> e \<in> set (dailyEntries (profile w)) \<and> date e = d"
  by (auto simp: findEntry_def find_Some_iff)

lemma findEntry_None: "(findEntry w d = None) = (\<forall>e \<in> set (dailyEntries (profile w)). date e \<noteq> d)"
  by (auto simp: findEntry_def find_None_iff)

lemma fromSavedOrDefault_eq:
  "fromSavedOrDefault w = w\<lparr>dailyData := Fields (savedOrDefault w (selectedDate w)), isDraft := False\<rparr>"
  by (simp add: fromSavedOrDefault_def savedOrDefault_def split: option.splits)

lemma findEntry_errors: "findEntry (w\<lparr>errors := x\<rparr>) d = findEntry w d"
  by (simp add: findEntry_def)

lemma savedOrDefault_errors: "savedOrDefault (w\<lparr>errors := x\<rparr>) d = savedOrDefault w d"
  by (simp add: savedOrDefault_def findEntry_errors)

lemma loadEffect_draft:
  assumes "localStorage w (getDraftKey w (selectedDate w)) = Some t" "jsonParse t = Some v"
  shows "loadEffect w = w\<lparr>errors := Map.empty, dailyData := v, isDraft := True\<rparr>"
  using assms by (cases t) (simp_all add: loadEffect_def truthy_def jsonParse_def)

lemma loadEffect_fallback:
  assumes "\<not> truthy (localStorage w (getDraftKey w (selectedDate w)))
    \<or> (\<exists>t. localStorage w (getDraftKey w (selectedDate w)) = Some t \<and> jsonParse t = None)"
  shows "loadEffect w
    = w\<lparr>errors := Map.empty, dailyData := Fields (savedOrDefault w (selectedDate w)),
        isDraft := False\<rparr>"
  using assms
  by (auto simp: loadEffect_def fromSavedOrDefault_eq savedOrDefault_errors Let_def
      split: option.splits)

text \<open>
  C8. The load effect fills the form by strict precedence. A draft in the cache that
  \<open>JSON.parse\<close> accepts is used as parsed and the state marked as draft, whether or not
  an entry is stored for the date. Without a draft, the form is the stored entry of the
  selected date without its \<open>date\<close>, counter by counter (an absent \<open>repiqueLeads\<close> shown
  as 0, an absent \<open>discardReason\<close> as the empty string), and the state is marked saved.
  With neither, every counter of the form is 0 and the reason empty, marked saved. The
  effect writes nothing to the cache.
\<close>

theorem read_path_precedence:
  "(localStorage w (getDraftKey w (selectedDate w)) = Some t \<and> jsonParse t = Some v
      \<longrightarrow> dailyData (loadEffect w) = v \<and> isDraft (loadEffect w))
   \<and> (\<not> truthy (localStorage w (getDraftKey w (selectedDate w)))
        \<and> findEntry w (selectedDate w) = Some e
      \<longrightarrow> e \<in> set (dailyEntries (profile w)) \<and> date e = selectedDate w
          \<and> dailyData (loadEffect w)
              = Fields \<lparr>newLeads = newLeads e, discardedLeads = discardedLeads e,
                  repiqueLeads = Some (case repiqueLeads e of None \<Rightarrow> 0 | Some n \<Rightarrow> n),
                  localVisits = localVisits e, contactingLeads = contactingLeads e,
                  inProgressLeads = inProgressLeads e, scheduledLeads = scheduledLeads e,
                  negotiationLeads = negotiationLeads e,
                  creditAnalysisLeads = creditAnalysisLeads e,
                  approvedLeads = approvedLeads e, signedLeads = signedLeads e,
                  discardReason = Some (case discardReason e of None \<Rightarrow> [] | Some r \<Rightarrow> r)\<rparr>
          \<and> \<not> isDraft (loadEffect w))
   \<and> (\<not> truthy (localStorage w (getDraftKey w (selectedDate w)))
        \<and> (\<forall>e \<in> set (dailyEntries (profile w)). date e \<noteq> selectedDate w)
      \<longrightarrow> dailyData (loadEffect w)
              = Fields \<lparr>newLeads = 0, discardedLeads = 0, repiqueLeads = Some 0,
                  localVisits = 0, contactingLeads = 0, inProgressLeads = 0,
                  scheduledLeads = 0, negotiationLeads = 0, creditAnalysisLeads = 0,
                  approvedLeads = 0, signedLeads = 0, discardReason = Some []\<rparr>
          \<and> \<not> isDraft (loadEffect w))
   \<and> localStorage (loadEffect w) = localStorage w"
proof (intro conjI impI)
  assume "localStorage w (getDraftKey w (selectedDate w)) = Some t \<and> jsonParse t = Some v"
  then have "loadEffect w = w\<lparr>errors := Map.empty, dailyData := v, isDraft := True\<rparr>"
    using loadEffect_draft [of w t v] by simp
  then show "dailyData (loadEffect w) = v" "isDraft (loadEffect w)" by simp_all
next
  assume a: "\<not> truthy (localStorage w (getDraftKey w (selectedDate w)))
      \<and> findEntry w (selectedDate w) = Some e"
  then show "e \<in> set (dailyEntries (profile w))" "date e = selectedDate w"
    using findEntry_Some by blast+
  from a have "dailyData (loadEffect w) = Fields (formOfEntry e)"
    by (simp add: loadEffect_fallback savedOrDefault_def)
  then show "dailyData (loadEffect w)
      = Fields \<lparr>newLeads = newLeads e, discardedLeads = discardedLeads e,
          repiqueLeads = Some (case repiqueLeads e of None \<Rightarrow> 0 | Some n \<Rightarrow> n),
          localVisits = localVisits e, contactingLeads = contactingLeads e,
          inProgressLeads = inProgressLeads e, scheduledLeads = scheduledLeads e,
          negotiationLeads = negotiationLeads e,
          creditAnalysisLeads = creditAnalysisLeads e,
          approvedLeads = approvedLeads e, signedLeads = signedLeads e,
          discardReason = Some (case discardReason e of None \<Rightarrow> [] | Some r \<Rightarrow> r)\<rparr>"
    by (simp add: formOfEntry_def DailyData.defs)
  from a show "\<not> isDraft (loadEffect w)"
    by (simp add: loadEffect_fallback)
next
  assume a: "\<not> truthy (localStorage w (getDraftKey w (selectedDate w)))
      \<and> (\<forall>e \<in> set (dailyEntries (profile w)). date e \<noteq> selectedDate w)"
  then have "findEntry w (selectedDate w) = None" by (simp add: findEntry_None)
  with a show "dailyData (loadEffect w)
      = Fields \<lparr>newLeads = 0, discardedLeads = 0, repiqueLeads = Some 0,
          localVisits = 0, contactingLeads = 0, inProgressLeads = 0,
          scheduledLeads = 0, negotiationLeads = 0, creditAnalysisLeads = 0,
          approvedLeads = 0, signedLeads = 0, discardReason = Some []\<rparr>"
    "\<not> isDraft (loadEffect w)"
    by (simp_all add: loadEffect_fallback savedOrDefault_def initialState_def)
next
  show "localStorage (loadEffect w) = localStorage w"
    by (simp add: loadEffect_def fromSavedOrDefault_eq Let_def split: option.splits)
qed

lemma draftWorld_facts:
  "selectedDate (draftWorld t) = ''2024-05-01''"
  "getDraftKey (draftWorld t) ''2024-05-01'' = ''draft_entry_Ana_2024-05-01''"
  "localStorage (draftWorld t) ''draft_entry_Ana_2024-05-01'' = Some t"
  "findEntry (draftWorld t) ''2024-05-01'' = Some scenarioDay1"
  "profile (draftWorld t) = scenarioProfile"
  by (simp_all add: draftWorld_def idleWorld_def getDraftKey_def findEntry_def scenarioProfile_def
      scenarioDay1_def scenarioDay2_def)

theorem read_path_precedence_witness:
  "localStorage (draftWorld (FormJson draftedForm))
       (getDraftKey (draftWorld (FormJson draftedForm)) (selectedDate (draftWorld (FormJson draftedForm))))
     = Some (FormJson draftedForm)
   \<and> jsonParse (FormJson draftedForm) = Some (Fields draftedForm)
   \<and> findEntry (draftWorld (FormJson draftedForm)) ''2024-05-01'' = Some scenarioDay1
   \<and> dailyData (loadEffect (draftWorld (FormJson draftedForm))) = Fields draftedForm
   \<and> isDraft (loadEffect (draftWorld (FormJson draftedForm)))
   \<and> \<not> truthy (localStorage (draftWorld EmptyText)
        (getDraftKey (draftWorld EmptyText) (selectedDate (draftWorld EmptyText))))
   \<and> findEntry (draftWorld EmptyText) (selectedDate (draftWorld EmptyText)) = Some scenarioDay1
   \<and> dailyData (loadEffect (draftWorld EmptyText))
       = Fields \<lparr>newLeads = 5, discardedLeads = 1, repiqueLeads = Some 0, localVisits = 0,
           contactingLeads = 0, inProgressLeads = 0, scheduledLeads = 0, negotiationLeads = 0,
           creditAnalysisLeads = 0, approvedLeads = 0, signedLeads = 2,
           discardReason = Some ''spam''\<rparr>
   \<and> \<not> isDraft (loadEffect (draftWorld EmptyText))
   \<and> \<not> truthy (localStorage idleWorld (getDraftKey idleWorld (selectedDate idleWorld)))
   \<and> dailyData (loadEffect idleWorld)
       = Fields \<lparr>newLeads = 0, discardedLeads = 0, repiqueLeads = Some 0, localVisits = 0,
           contactingLeads = 0, inProgressLeads = 0, scheduledLeads = 0, negotiationLeads = 0,
           creditAnalysisLeads = 0, approvedLeads = 0, signedLeads = 0,
           discardReason = Some []\<rparr>
   \<and> \<not> isDraft (loadEffect idleWorld)"
proof -
  have p: "jsonParse (FormJson draftedForm) = Some (Fields draftedForm)"
    by (simp add: jsonParse_def)
  have e: "\<not> truthy (localStorage (draftWorld EmptyText)
      (getDraftKey (draftWorld EmptyText) (selectedDate (draftWorld EmptyText))))"
    by (simp add: draftWorld_facts truthy_def)
  have i: "\<not> truthy (localStorage idleWorld (getDraftKey idleWorld (selectedDate idleWorld)))"
    "\<forall>e \<in> set (dailyEntries (profile idleWorld)). date e \<noteq> selectedDate idleWorld"
    by (simp_all add: idleWorld_def truthy_def scenarioProfile_def scenarioDay1_def scenarioDay2_def)
  from read_path_precedence [of "draftWorld (FormJson draftedForm)" "FormJson draftedForm"
      "Fields draftedForm" scenarioDay1] p
  have "dailyData (loadEffect (draftWorld (FormJson draftedForm))) = Fields draftedForm"
    "isDraft (loadEffect (draftWorld (FormJson draftedForm)))"
    by (simp_all add: draftWorld_facts)
  moreover from read_path_precedence [of "draftWorld EmptyText" EmptyText JsNull scenarioDay1] e
  have "dailyData (loadEffect (draftWorld EmptyText))
       = Fields \<lparr>newLeads = 5, discardedLeads = 1, repiqueLeads = Some 0, localVisits = 0,
           contactingLeads = 0, inProgressLeads = 0, scheduledLeads = 0, negotiationLeads = 0,
           creditAnalysisLeads = 0, approvedLeads = 0, signedLeads = 2,
           discardReason = Some ''spam''\<rparr>"
    "\<not> isDraft (loadEffect (draftWorld EmptyText))"
    by (simp_all add: draftWorld_facts) (simp add: scenarioDay1_def)
  moreover from read_path_precedence [of idleWorld EmptyText JsNull scenarioDay1] i
  have "dailyData (loadEffect idleWorld)
       = Fields \<lparr>newLeads = 0, discardedLeads = 0, repiqueLeads = Some 0, localVisits = 0,
           contactingLeads = 0, inProgressLeads = 0, scheduledLeads = 0, negotiationLeads = 0,
           creditAnalysisLeads = 0, approvedLeads = 0, signedLeads = 0,
           discardReason = Some []\<rparr>"
    "\<not> isDraft (loadEffect idleWorld)"
    by simp_all
  ultimately show ?thesis using p e i(1) by (simp add: draftWorld_facts)
qed

lemma renders_Fields: "dailyData w = Fields f \<Longrightarrow> renders w"
  by (simp add: renders_def)

lemma loadRender_Fields:
  assumes "dailyData (loadEffect w0) = Fields f"
  shows "dailyData (loadRender b w0) = Fields f"
    and "localStorage (loadRender b w0) (getDraftKey w0 (selectedDate w0)) = Some (FormJson f)"
    and "isDraft (loadRender b w0)"
proof -
  have keep: "selectedDate (loadEffect w0) = selectedDate w0" "profile (loadEffect w0) = profile w0"
    by (simp_all add: loadEffect_def fromSavedOrDefault_eq Let_def split: option.splits)
  define w2 where "w2 = (if b then saveDraftEffect (dailyData w0) (loadEffect w0) else loadEffect w0)"
  have w2: "dailyData w2 = Fields f" "selectedDate w2 = selectedDate w0" "profile w2 = profile w0"
    using assms keep by (simp_all add: w2_def saveDraftEffect_def split: form_value.splits)
  have lr: "loadRender b w0 = saveDraftEffect (Fields f) w2"
    using w2(1) by (simp add: loadRender_def Let_def w2_def [symmetric] renders_def)
  show "dailyData (loadRender b w0) = Fields f"
    and "localStorage (loadRender b w0) (getDraftKey w0 (selectedDate w0)) = Some (FormJson f)"
    and "isDraft (loadRender b w0)"
    unfolding lr using w2 by (simp_all add: saveDraftEffect_def getDraftKey_def)
qed

lemma selectedDate_update_facts:
  "getDraftKey (w\<lparr>selectedDate := d\<rparr>) x = getDraftKey w x"
  "savedOrDefault (w\<lparr>selectedDate := d\<rparr>) x = savedOrDefault w x"
  "localStorage (w\<lparr>selectedDate := d\<rparr>) = localStorage w"
  "selectedDate (w\<lparr>selectedDate := d\<rparr>) = d"
  by (simp_all add: getDraftKey_def savedOrDefault_def findEntry_def)

lemma selectDate_fallback:
  assumes "renders w" "d \<noteq> selectedDate w"
    and "\<not> truthy (localStorage w (getDraftKey w d))
      \<or> (\<exists>t. localStorage w (getDraftKey w d) = Some t \<and> jsonParse t = None)"
  shows "dailyData (selectDate d w) = Fields (savedOrDefault w d)"
    and "localStorage (selectDate d w) (getDraftKey w d) = Some (FormJson (savedOrDefault w d))"
    and "isDraft (selectDate d w)"
proof -
  let ?w0 = "w\<lparr>selectedDate := d\<rparr>"
  have sel: "selectDate d w = loadRender True ?w0"
    using assms(1,2) by (simp add: selectDate_def)
  have "loadEffect ?w0
      = ?w0\<lparr>errors := Map.empty, dailyData := Fields (savedOrDefault ?w0 (selectedDate ?w0)),
          isDraft := False\<rparr>"
    using assms(3) by (intro loadEffect_fallback) (simp add: selectedDate_update_facts)
  then have "dailyData (loadEffect ?w0) = Fields (savedOrDefault w d)"
    by (simp add: selectedDate_update_facts)
  from loadRender_Fields [OF this, of True]
  show "dailyData (selectDate d w) = Fields (savedOrDefault w d)"
    and "localStorage (selectDate d w) (getDraftKey w d) = Some (FormJson (savedOrDefault w d))"
    and "isDraft (selectDate d w)"
    by (simp_all add: sel selectedDate_update_facts)
qed

text \<open>
  The recovery the load effect does implement: when \<open>JSON.parse\<close> throws on the cached
  text, the \<open>catch\<close> branch fills the form as if there were no draft, from the stored
  entry of the date if there is one, else with all counters 0, marked saved, and the
  result renders. The load effect leaves the text in the cache; the save effect that
  follows the selection of the date replaces it by the form just loaded.
\<close>

lemma unparsable_draft_fallback:
  "(localStorage w (getDraftKey w (selectedDate w)) = Some t \<and> jsonParse t = None
      \<longrightarrow> dailyData (loadEffect w) = Fields (savedOrDefault w (selectedDate w))
          \<and> \<not> isDraft (loadEffect w) \<and> renders (loadEffect w)
          \<and> localStorage (loadEffect w) = localStorage w)
   \<and> (renders w \<and> d \<noteq> selectedDate w
        \<and> localStorage w (getDraftKey w d) = Some t \<and> jsonParse t = None
      \<longrightarrow> dailyData (selectDate d w) = Fields (savedOrDefault w d)
          \<and> localStorage (selectDate d w) (getDraftKey w d)
              = Some (FormJson (savedOrDefault w d)))"
proof (intro conjI impI)
  assume a: "localStorage w (getDraftKey w (selectedDate w)) = Some t \<and> jsonParse t = None"
  then have "loadEffect w
      = w\<lparr>errors := Map.empty, dailyData := Fields (savedOrDefault w (selectedDate w)),
          isDraft := False\<rparr>"
    by (intro loadEffect_fallback) blast
  then show "dailyData (loadEffect w) = Fields (savedOrDefault w (selectedDate w))"
    "\<not> isDraft (loadEffect w)" "renders (loadEffect w)"
    "localStorage (loadEffect w) = localStorage w"
    by (simp_all add: renders_def)
next
  assume a: "renders w \<and> d \<noteq> selectedDate w
      \<and> localStorage w (getDraftKey w d) = Some t \<and> jsonParse t = None"
  then show "dailyData (selectDate d w) = Fields (savedOrDefault w d)"
    "localStorage (selectDate d w) (getDraftKey w d) = Some (FormJson (savedOrDefault w d))"
    using selectDate_fallback [of w d] by blast+
qed

lemma cachedWorld_facts:
  "selectedDate (cachedWorld t) = ''2024-05-03''"
  "getDraftKey (cachedWorld t) ''2024-05-01'' = ''draft_entry_Ana_2024-05-01''"
  "localStorage (cachedWorld t) ''draft_entry_Ana_2024-05-01'' = Some t"
  "findEntry (cachedWorld t) ''2024-05-01'' = Some scenarioDay1"
  "renders (cachedWorld t)"
  by (simp_all add: cachedWorld_def idleWorld_def getDraftKey_def findEntry_def
      scenarioProfile_def scenarioDay1_def scenarioDay2_def renders_def)

lemma unparsable_draft_example:
  "dailyData (loadEffect (draftWorld NotJson))
     = Fields \<lparr>newLeads = 5, discardedLeads = 1, repiqueLeads = Some 0, localVisits = 0,
         contactingLeads = 0, inProgressLeads = 0, scheduledLeads = 0, negotiationLeads = 0,
         creditAnalysisLeads = 0, approvedLeads = 0, signedLeads = 2,
         discardReason = Some ''spam''\<rparr>
   \<and> \<not> isDraft (loadEffect (draftWorld NotJson))
   \<and> renders (loadEffect (draftWorld NotJson))"
proof -
  have "jsonParse NotJson = None" by (simp add: jsonParse_def)
  with unparsable_draft_fallback [of "draftWorld NotJson" NotJson "''2024-05-01''"]
  show ?thesis
    by (simp add: draftWorld_facts savedOrDefault_def formOfEntry_def DailyData.defs
        scenarioDay1_def)
qed

text \<open>
  C9. A stored draft that cannot be parsed back into the expected shape is to be set
  aside for the committed entry or the default, without a fatal error. The load effect
  recovers only when \<open>JSON.parse\<close> throws; it does not look at the shape of what was
  parsed. With the text \<open>null\<close> cached for 2024-05-01, a date with a committed entry,
  \<open>JSON.parse\<close> returns \<open>null\<close> without error: the load effect puts \<open>null\<close> into the form
  instead of the committed entry, marks it as draft, and the render that follows throws
  on \<open>dailyData[key]\<close>. This holds when the component mounts on that date and when the
  date is selected from another one.
\<close>

theorem null_draft_crashes:
  "localStorage (draftWorld NullJson)
       (getDraftKey (draftWorld NullJson) (selectedDate (draftWorld NullJson)))
     = Some NullJson
   \<and> jsonParse NullJson = Some JsNull
   \<and> findEntry (draftWorld NullJson) (selectedDate (draftWorld NullJson)) = Some scenarioDay1
   \<and> dailyData (loadEffect (draftWorld NullJson)) = JsNull
   \<and> dailyData (loadEffect (draftWorld NullJson))
       \<noteq> Fields \<lparr>newLeads = 5, discardedLeads = 1, repiqueLeads = Some 0, localVisits = 0,
           contactingLeads = 0, inProgressLeads = 0, scheduledLeads = 0, negotiationLeads = 0,
           creditAnalysisLeads = 0, approvedLeads = 0, signedLeads = 2,
           discardReason = Some ''spam''\<rparr>
   \<and> isDraft (loadEffect (draftWorld NullJson))
   \<and> \<not> renders (loadEffect (draftWorld NullJson))
   \<and> \<not> renders (loadRender True (draftWorld NullJson))
   \<and> renders (cachedWorld NullJson)
   \<and> \<not> renders (selectDate ''2024-05-01'' (cachedWorld NullJson))"
proof -
  have p: "jsonParse NullJson = Some JsNull" by (simp add: jsonParse_def)
  have l: "loadEffect (draftWorld NullJson)
      = (draftWorld NullJson)\<lparr>errors := Map.empty, dailyData := JsNull, isDraft := True\<rparr>"
    by (rule loadEffect_draft [of _ NullJson]) (simp_all add: draftWorld_facts p)
  have d: "dailyData (draftWorld NullJson) = Fields initialState"
    by (simp add: draftWorld_def idleWorld_def)
  have m: "\<not> renders (loadRender True (draftWorld NullJson))"
    by (simp add: loadRender_def Let_def l d saveDraftEffect_def renders_def)
  let ?c = "(cachedWorld NullJson)\<lparr>selectedDate := ''2024-05-01''\<rparr>"
  have lc: "loadEffect ?c = ?c\<lparr>errors := Map.empty, dailyData := JsNull, isDraft := True\<rparr>"
    by (rule loadEffect_draft [of _ NullJson])
      (simp_all add: selectedDate_update_facts cachedWorld_facts p)
  have dc: "dailyData ?c = Fields initialState"
    by (simp add: cachedWorld_def idleWorld_def)
  have "\<not> renders (loadRender True ?c)"
    by (simp add: loadRender_def Let_def lc dc saveDraftEffect_def renders_def)
  then have s: "\<not> renders (selectDate ''2024-05-01'' (cachedWorld NullJson))"
    by (simp add: selectDate_def cachedWorld_facts)
  have r: "renders (cachedWorld NullJson)" by (simp add: cachedWorld_facts)
  show ?thesis using p m s r by (simp add: l draftWorld_facts renders_def)
qed

text \<open>
  C10. Whenever the load effect has put form data into the form, the save effect that
  runs after the next render writes that data to the draft cache under the selected date
  and marks the state as draft, with no edit by the user. In particular, selecting a date
  that has no draft loads the stored entry or the default and leaves a draft of it in the
  cache.
\<close>

theorem autosave_after_load:
  "(dailyData (loadEffect w0) = Fields f
      \<longrightarrow> dailyData (loadRender b w0) = Fields f
          \<and> localStorage (loadRender b w0) (getDraftKey w0 (selectedDate w0)) = Some (FormJson f)
          \<and> isDraft (loadRender b w0))
   \<and> (renders w \<and> d \<noteq> selectedDate w \<and> \<not> truthy (localStorage w (getDraftKey w d))
      \<longrightarrow> dailyData (selectDate d w) = Fields (savedOrDefault w d)
          \<and> localStorage (selectDate d w) (getDraftKey w d)
              = Some (FormJson (savedOrDefault w d))
          \<and> isDraft (selectDate d w))"
proof (intro conjI impI)
  assume "dailyData (loadEffect w0) = Fields f"
  from loadRender_Fields [OF this]
  show "dailyData (loadRender b w0) = Fields f"
    "localStorage (loadRender b w0) (getDraftKey w0 (selectedDate w0)) = Some (FormJson f)"
    "isDraft (loadRender b w0)"
    by simp_all
next
  assume "renders w \<and> d \<noteq> selectedDate w \<and> \<not> truthy (localStorage w (getDraftKey w d))"
  then show "dailyData (selectDate d w) = Fields (savedOrDefault w d)"
    "localStorage (selectDate d w) (getDraftKey w d) = Some (FormJson (savedOrDefault w d))"
    "isDraft (selectDate d w)"
    using selectDate_fallback [of w d] by blast+
qed

lemma idleWorld_facts:
  "selectedDate idleWorld = ''2024-05-03''"
  "getDraftKey idleWorld d = ''draft_entry_Ana_'' @ d"
  "localStorage idleWorld k = None"
  "savedOrDefault idleWorld ''2024-05-01'' = formOfEntry scenarioDay1"
  "savedOrDefault idleWorld ''2024-05-04'' = initialState"
  "renders idleWorld"
  by (simp_all add: idleWorld_def getDraftKey_def savedOrDefault_def findEntry_def
      scenarioProfile_def scenarioDay1_def scenarioDay2_def renders_def)

theorem autosave_after_load_witness:
  "renders idleWorld \<and> ''2024-05-01'' \<noteq> selectedDate idleWorld
   \<and> localStorage idleWorld ''draft_entry_Ana_2024-05-01'' = None
   \<and> dailyData (selectDate ''2024-05-01'' idleWorld) = Fields (formOfEntry scenarioDay1)
   \<and> localStorage (selectDate ''2024-05-01'' idleWorld) ''draft_entry_Ana_2024-05-01''
       = Some (FormJson (formOfEntry scenarioDay1))
   \<and> isDraft (selectDate ''2024-05-01'' idleWorld)
   \<and> localStorage idleWorld ''draft_entry_Ana_2024-05-04'' = None
   \<and> localStorage (selectDate ''2024-05-04'' idleWorld) ''draft_entry_Ana_2024-05-04''
       = Some (FormJson initialState)"
proof -
  from autosave_after_load [of idleWorld initialState True idleWorld "''2024-05-01''"]
  have "dailyData (selectDate ''2024-05-01'' idleWorld) = Fields (formOfEntry scenarioDay1)"
    "localStorage (selectDate ''2024-05-01'' idleWorld) ''draft_entry_Ana_2024-05-01''
       = Some (FormJson (formOfEntry scenarioDay1))"
    "isDraft (selectDate ''2024-05-01'' idleWorld)"
    by (simp_all add: idleWorld_facts truthy_def)
  moreover from autosave_after_load [of idleWorld initialState True idleWorld "''2024-05-04''"]
  have "localStorage (selectDate ''2024-05-04'' idleWorld) ''draft_entry_Ana_2024-05-04''
       = Some (FormJson initialState)"
    by (simp add: idleWorld_facts truthy_def)
  ultimately show ?thesis by (simp add: idleWorld_facts)
qed

end
